theory Spec2Isabelle
  imports Main
begin

section \<open>Data model (types.ts)\<close>

text \<open>
  A browser \<open>File\<close>: only its name, its declared media type (\<open>file.type\<close>) and
  its bytes matter to the code.
\<close>

record File =
  name :: string
  mimeType :: string
  bytes :: string

datatype Status = Pending | Processing | Completed | Error

text \<open>
  \<open>interface ImageFile\<close>. The optional fields \<open>resultUrl?\<close> and \<open>error?\<close> are
  options: \<open>None\<close> is JavaScript's \<open>undefined\<close> (a missing property reads as
  \<open>undefined\<close>, and the code never tells the two apart). The fields \<open>id\<close> and \<open>file\<close> are
  written \<open>id'\<close> and \<open>file'\<close>: \<open>id\<close> is HOL's identity function and \<open>file\<close> a keyword.
\<close>

record ImageFile =
  id' :: string
  file' :: File
  preview :: string
  status :: Status
  resultUrl :: "string option"
  error :: "string option"

datatype AspectRatio = R1_1 | R3_4 | R4_3 | R9_16 | R16_9

record GenerationSettings =
  preset :: string
  customPrompt :: string
  aspectRatio :: AspectRatio

definition SCANDINAVIAN :: string where
  "SCANDINAVIAN =
     ''In a bright, airy Scandinavian living room with light wood furniture and soft textures''"

text \<open>
  The other members of \<open>enum LifestylePreset\<close>, and the enumeration as a list. The
  select of the page offers these eight strings and, last, an option whose value is
  \<open>CUSTOM\<close>; \<open>settings.preset\<close> holds the value of the option chosen.
\<close>

definition MINIMALIST_ZEN :: string where
  "MINIMALIST_ZEN =
     ''In a minimalist zen space with natural stone, bamboo, and soft indirect lighting''"

definition INDUSTRIAL_LOFT :: string where
  "INDUSTRIAL_LOFT =
     ''In a modern industrial loft with exposed brick, metal accents, and warm Edison bulbs''"

definition MODERN_KITCHEN :: string where
  "MODERN_KITCHEN =
     ''On a white marble kitchen island with high-end appliances and fresh herbs in the background''"

definition NATURE_OUTDOOR :: string where
  "NATURE_OUTDOOR =
     ''On a rustic wooden table outdoors with blurred green forest and soft sunlight bokeh''"

definition LUXURY_STUDIO :: string where
  "LUXURY_STUDIO =
     ''In a high-end luxury studio setting with dramatic shadows and premium velvet textures''"

definition BOHEMIAN_CHIC :: string where
  "BOHEMIAN_CHIC = ''In a cozy bohemian room with plants, macrame, and warm sunbeams''"

definition TECH_OFFICE :: string where
  "TECH_OFFICE =
     ''On a clean white desk in a high-tech office with a blurred city skyline view''"

definition LifestylePreset :: "string list" where
  "LifestylePreset =
     [SCANDINAVIAN, MINIMALIST_ZEN, INDUSTRIAL_LOFT, MODERN_KITCHEN, NATURE_OUTDOOR,
      LUXURY_STUDIO, BOHEMIAN_CHIC, TECH_OFFICE]"

definition selectValues :: "string list" where
  "selectValues = LifestylePreset @ [''CUSTOM'']"

section \<open>The image request client (geminiService.ts)\<close>

subsection \<open>Values thrown\<close>

text \<open>
  Three places raise: the promise of \<open>fileToBase64\<close> is rejected with whatever the
  reader hands to \<open>onerror\<close>, \<open>generateContent\<close> throws whatever the client
  library throws, and \<open>generateLifestyleImage\<close> itself throws
  \<open>new Error("No image was generated in the response.")\<close>. The caller reads
  \<open>(error as Error).message\<close>, a property read on an arbitrary value; so a thrown
  value of the environment is modelled by what that read yields: \<open>Some m\<close> for a
  message, \<open>None\<close> when the value has no such property.
\<close>

datatype Thrown =
    EncodingError "string option"
  | TransportError "string option"
  | NoImageError

fun message :: "Thrown \<Rightarrow> string option" where
  "message (EncodingError m) = m"
| "message (TransportError m) = m"
| "message NoImageError = Some ''No image was generated in the response.''"

subsection \<open>fileToBase64\<close>

text \<open>
  \<open>split_on c s\<close> is \<open>s.split(c)\<close> for a one-character separator: the pieces
  between the separators, never an empty array.
\<close>

fun split_on :: "char \<Rightarrow> string \<Rightarrow> string list" where
  "split_on c [] = [[]]"
| "split_on c (x # xs) =
     (if x = c then [] # split_on c xs
      else (case split_on c xs of
              [] \<Rightarrow> [[x]]
            | p # ps \<Rightarrow> (x # p) # ps))"

text \<open>\<open>xs[i]\<close> on an array: \<open>undefined\<close> out of range.\<close>

definition at_index :: "'a list \<Rightarrow> nat \<Rightarrow> 'a option" where
  "at_index xs i = (if i < length xs then Some (xs ! i) else None)"

text \<open>
  The reader is the environment: \<open>readAsDataURL\<close> ends either in \<open>onload\<close> with
  \<open>reader.result\<close> (\<open>Inr\<close>) or in \<open>onerror\<close> with an event (\<open>Inl\<close>, holding
  what its \<open>message\<close> property reads as). The promise resolves with the piece after
  the first comma of the data URL.
\<close>

definition fileToBase64 ::
  "(File \<Rightarrow> string option + string) \<Rightarrow> File \<Rightarrow> Thrown + string option" where
  "fileToBase64 readAsDataURL f =
     (case readAsDataURL f of
        Inl m \<Rightarrow> Inl (EncodingError m)
      | Inr result \<Rightarrow> Inr (at_index (split_on CHR '','' result) 1))"

subsection \<open>The request and the response\<close>

text \<open>
  The types of the client library are not part of the repository; they are modelled as
  far as the code reads them. Every property the code reaches through \<open>?.\<close> or tests
  for truthiness is optional.
\<close>

record InlineData =
  data :: "string option"
  dataMimeType :: "string option"

record Part =
  text' :: "string option"
  inlineData :: "InlineData option"

record Content =
  parts :: "Part list option"

record Candidate =
  content :: "Content option"

record Response =
  candidates :: "Candidate list option"

text \<open>A template literal renders \<open>undefined\<close> as the nine letters of the word.\<close>

fun interpolate :: "string option \<Rightarrow> string" where
  "interpolate None = ''undefined''"
| "interpolate (Some s) = s"

record Request =
  model :: string
  imageData :: "string option"
  imageMimeType :: string
  instruction :: string
  system :: string
  ratio :: AspectRatio

text \<open>The template literal \<open>systemInstruction\<close>, with its line breaks and indentation.\<close>

definition systemInstruction :: string where
  "systemInstruction =
     [CHR 10] @ concat (map (\<lambda>line. line @ [CHR 10])
       [''    You are a world-class commercial product photographer and digital retoucher. '',
        ''    Your mission is to take a product image (often on a plain white background) and seamlessly place it into a photorealistic lifestyle environment.'',
        ''    '',
        ''    CORE REQUIREMENTS:'',
        ''    1. PRODUCT INTEGRITY: Do NOT alter the product's shape, color, texture, or branding. The product must remain the central hero of the shot.'',
        ''    2. LIGHTING CONSISTENCY: Analyze the light on the product and ensure the new environment's lighting matches perfectly. Add realistic contact shadows, ambient occlusion, and reflections where the product meets surfaces.'',
        ''    3. PHOTOREALISM: The background should be high-resolution with realistic depth-of-field (bokeh) to keep focus on the product.'',
        ''    4. COMPOSITION: Place the product in a logical, aesthetically pleasing position (e.g., on a table, floor, or shelf).'',
        ''    5. No extra text, watermarks, or distorted elements.''])
     @ ''  ''"

definition taskText :: "string \<Rightarrow> string" where
  "taskText prompt =
     ''Create a professional lifestyle photo of this product. Environment description: ''
     @ prompt
     @ ''. Ensure the product is perfectly integrated with realistic lighting and shadows.''"

definition buildRequest :: "string option \<Rightarrow> string \<Rightarrow> string \<Rightarrow> AspectRatio \<Rightarrow> Request" where
  "buildRequest base64Data mime prompt ar =
     \<lparr> model = ''gemini-2.5-flash-image'',
       imageData = base64Data,
       imageMimeType = mime,
       instruction = taskText prompt,
       system = systemInstruction,
       ratio = ar \<rparr>"

text \<open>\<open>response.candidates?.[0]?.content?.parts || []\<close>\<close>

definition responseParts :: "Response \<Rightarrow> Part list" where
  "responseParts r =
     (case candidates r of
        None \<Rightarrow> []
      | Some cs \<Rightarrow>
          (case at_index cs 0 of
             None \<Rightarrow> []
           | Some c \<Rightarrow>
               (case content c of
                  None \<Rightarrow> []
                | Some ct \<Rightarrow> (case parts ct of None \<Rightarrow> [] | Some ps \<Rightarrow> ps))))"

text \<open>
  The \<open>for ... of\<close> loop with its \<open>break\<close>: \<open>imageUrl\<close> starts as the empty
  string and is assigned at the first part whose \<open>inlineData\<close> is truthy (an object
  always is).
\<close>

fun scanParts :: "Part list \<Rightarrow> string" where
  "scanParts [] = ''''"
| "scanParts (p # ps) =
     (case inlineData p of
        Some d \<Rightarrow> ''data:image/png;base64,'' @ interpolate (data d)
      | None \<Rightarrow> scanParts ps)"

text \<open>
  \<open>generateLifestyleImage\<close>. The call of the library is the environment:
  \<open>generateContent req\<close> is \<open>Inr\<close> the response, or \<open>Inl\<close> what the thrown
  value's \<open>message\<close> reads as. The \<open>catch\<close> block logs and rethrows, so every
  error leaves the function unchanged.
\<close>

definition generateLifestyleImage ::
  "(Request \<Rightarrow> string option + Response) \<Rightarrow>
   string option \<Rightarrow> string \<Rightarrow> string \<Rightarrow> AspectRatio \<Rightarrow> Thrown + string" where
  "generateLifestyleImage generateContent base64Data mime prompt ar =
     (case generateContent (buildRequest base64Data mime prompt ar) of
        Inl m \<Rightarrow> Inl (TransportError m)
      | Inr response \<Rightarrow>
          (let imageUrl = scanParts (responseParts response)
           in if imageUrl = '''' then Inl NoImageError else Inr imageUrl))"

text \<open>The first part that carries inline data, as a specification of the scan.\<close>

definition firstInline :: "Part list \<Rightarrow> InlineData option" where
  "firstInline ps =
     (case List.find (\<lambda>p. inlineData p \<noteq> None) ps of
        None \<Rightarrow> None
      | Some p \<Rightarrow> inlineData p)"

subsection \<open>The same two functions, with an environment that keeps a record\<close>

text \<open>
  To say which requests a run makes, and in which order, the environment must be able
  to remember what it was asked. Here the reader and the library take the state \<open>w\<close>
  of the environment and return it changed; the two functions hand it through. They are
  the functions above when the state is ignored (\<open>fileToBase64_io_pure\<close> and
  \<open>generateLifestyleImage_io_pure\<close> below).
\<close>

definition fileToBase64_io ::
  "(File \<Rightarrow> 'w \<Rightarrow> (string option + string) \<times> 'w) \<Rightarrow>
   File \<Rightarrow> 'w \<Rightarrow> (Thrown + string option) \<times> 'w" where
  "fileToBase64_io readAsDataURL f w =
     (case readAsDataURL f w of
        (Inl m, w') \<Rightarrow> (Inl (EncodingError m), w')
      | (Inr result, w') \<Rightarrow> (Inr (at_index (split_on CHR '','' result) 1), w'))"

definition generateLifestyleImage_io ::
  "(Request \<Rightarrow> 'w \<Rightarrow> (string option + Response) \<times> 'w) \<Rightarrow>
   string option \<Rightarrow> string \<Rightarrow> string \<Rightarrow> AspectRatio \<Rightarrow> 'w \<Rightarrow> (Thrown + string) \<times> 'w" where
  "generateLifestyleImage_io generateContent base64Data mime prompt ar w =
     (case generateContent (buildRequest base64Data mime prompt ar) w of
        (Inl m, w') \<Rightarrow> (Inl (TransportError m), w')
      | (Inr response, w') \<Rightarrow>
          (let imageUrl = scanParts (responseParts response)
           in (if imageUrl = '''' then Inl NoImageError else Inr imageUrl, w')))"

section \<open>The batch runner (the \<open>App\<close> component)\<close>

subsection \<open>The collection and its updates\<close>

record App =
  images :: "ImageFile list"
  isProcessing :: bool

text \<open>
  \<open>handleFileChange\<close>: each chosen file comes with the identifier that
  \<open>Math.random().toString(36).substr(2, 9)\<close> produced for it and the preview URL
  that \<open>URL.createObjectURL\<close> returned; both are inputs here. \<open>e.target.files\<close>
  may be null.
\<close>

definition newItem :: "string \<times> File \<times> string \<Rightarrow> ImageFile" where
  "newItem t =
     (case t of (i, f, p) \<Rightarrow>
        \<lparr> id' = i, file' = f, preview = p, status = Pending,
          resultUrl = None, error = None \<rparr>)"

definition handleFileChange ::
  "(string \<times> File \<times> string) list option \<Rightarrow> ImageFile list \<Rightarrow> ImageFile list" where
  "handleFileChange files prev =
     (case files of None \<Rightarrow> prev | Some fs \<Rightarrow> prev @ map newItem fs)"

text \<open>
  \<open>removeImage\<close> and \<open>clearAll\<close>, without the release of the preview URLs.
  \<open>clearAll\<close> touches the two fields of the component's state and nothing else.
\<close>

definition removeImage :: "string \<Rightarrow> ImageFile list \<Rightarrow> ImageFile list" where
  "removeImage i prev = filter (\<lambda>img. id' img \<noteq> i) prev"

definition clearAll :: "'a App_scheme \<Rightarrow> 'a App_scheme" where
  "clearAll a = a\<lparr>images := [], isProcessing := False\<rparr>"

text \<open>
  The three updaters that \<open>startProcessing\<close> hands to \<open>setImages\<close>: each maps
  over the collection of the moment and rebuilds the items whose identifier matches.
\<close>

definition markProcessing :: "string \<Rightarrow> ImageFile list \<Rightarrow> ImageFile list" where
  "markProcessing i prev =
     map (\<lambda>item. if id' item = i then item\<lparr>status := Processing\<rparr> else item) prev"

definition markCompleted :: "string \<Rightarrow> string \<Rightarrow> ImageFile list \<Rightarrow> ImageFile list" where
  "markCompleted i url prev =
     map (\<lambda>item. if id' item = i then item\<lparr>status := Completed, resultUrl := Some url\<rparr>
                  else item) prev"

definition markError :: "string \<Rightarrow> string option \<Rightarrow> ImageFile list \<Rightarrow> ImageFile list" where
  "markError i msg prev =
     map (\<lambda>item. if id' item = i then item\<lparr>status := Error, error := msg\<rparr> else item) prev"

text \<open>\<open>settings.customPrompt || settings.preset\<close>: the empty string is falsy.\<close>

definition finalPrompt :: "GenerationSettings \<Rightarrow> string" where
  "finalPrompt settings =
     (if customPrompt settings \<noteq> '''' then customPrompt settings else preset settings)"


subsection \<open>A run, start to end\<close>

text \<open>
  The environment of a run: what the reader and the generation API answer in the
  iteration with index \<open>i\<close>.
\<close>

record Env =
  readAsDataURL :: "nat \<Rightarrow> File \<Rightarrow> string option + string"
  generateContent :: "nat \<Rightarrow> Request \<Rightarrow> string option + Response"

text \<open>
  What the environment sees of a run, in order: the files it is asked to read and the
  requests it is sent. The record is kept by the environment itself: \<open>reader\<close> and
  \<open>client\<close> are the only way to an answer, and each notes what it was asked.
\<close>

datatype Event = Read File | Sent Request

definition reader ::
  "Env \<Rightarrow> nat \<Rightarrow> File \<Rightarrow> Event list \<Rightarrow> (string option + string) \<times> Event list" where
  "reader env i f w = (readAsDataURL env i f, w @ [Read f])"

definition client ::
  "Env \<Rightarrow> nat \<Rightarrow> Request \<Rightarrow> Event list \<Rightarrow> (string option + Response) \<times> Event list" where
  "client env i req w = (generateContent env i req, w @ [Sent req])"

text \<open>
  The body of the \<open>try\<close> block for one item: both awaits, the second only when the
  first did not throw. The result is the outcome and the record of the environment.
\<close>

definition processItem ::
  "Env \<Rightarrow> string \<Rightarrow> AspectRatio \<Rightarrow> nat \<Rightarrow> ImageFile \<Rightarrow> Event list \<Rightarrow>
   (Thrown + string) \<times> Event list" where
  "processItem env prompt ar i img w =
     (case fileToBase64_io (reader env i) (file' img) w of
        (Inl e, w') \<Rightarrow> (Inl e, w')
      | (Inr base64, w') \<Rightarrow>
          generateLifestyleImage_io (client env i) base64 (mimeType (file' img)) prompt ar w')"

text \<open>The \<open>try\<close>/\<open>catch\<close> around it: which update the outcome leads to.\<close>

definition settle :: "ImageFile \<Rightarrow> Thrown + string \<Rightarrow> ImageFile list \<Rightarrow> ImageFile list" where
  "settle img outcome prev =
     (case outcome of
        Inr url \<Rightarrow> markCompleted (id' img) url prev
      | Inl e \<Rightarrow> markError (id' img) (message e) prev)"

text \<open>
  The \<open>for\<close> loop from index \<open>i\<close> on. The second argument is \<open>images[i..]\<close> of
  the array the function closed over, the pair is the collection held by React and the
  record of the environment.
\<close>

fun processFrom ::
  "Env \<Rightarrow> string \<Rightarrow> AspectRatio \<Rightarrow> nat \<Rightarrow> ImageFile list \<Rightarrow>
   ImageFile list \<times> Event list \<Rightarrow> ImageFile list \<times> Event list" where
  "processFrom env prompt ar i [] acc = acc"
| "processFrom env prompt ar i (img # rest) acc =
     (if status img = Completed then processFrom env prompt ar (Suc i) rest acc
      else
        (let live = markProcessing (id' img) (fst acc);
             r = processItem env prompt ar i img (snd acc)
         in processFrom env prompt ar (Suc i) rest (settle img (fst r) live, snd r)))"

text \<open>
  \<open>startProcessing\<close>: the component's state after the run and what the environment
  recorded during it.
\<close>

definition startProcessing :: "Env \<Rightarrow> GenerationSettings \<Rightarrow> App \<Rightarrow> App \<times> Event list" where
  "startProcessing env settings a =
     (if images a = [] then (a, [])
      else
        (let r = processFrom env (finalPrompt settings) (aspectRatio settings) 0
                   (images a) (images a, [])
         in (\<lparr> images = fst r, isProcessing = False \<rparr>, snd r)))"

text \<open>The files read and the requests sent, in the order of a record.\<close>

fun reads :: "Event list \<Rightarrow> File list" where
  "reads [] = []"
| "reads (Read f # es) = f # reads es"
| "reads (Sent req # es) = reads es"

fun requests :: "Event list \<Rightarrow> Request list" where
  "requests [] = []"
| "requests (Read f # es) = requests es"
| "requests (Sent req # es) = req # requests es"

subsection \<open>One iteration, described\<close>

text \<open>
  What the iteration with index \<open>i\<close> is expected to do, written without the record:
  its outcome, the request it sends, if any, what the environment sees of it, and what
  it leaves of its item when no other item has the same identifier. That
  \<open>processItem\<close> and the loop do just this is proved below.
\<close>

definition outcomeOf :: "Env \<Rightarrow> string \<Rightarrow> AspectRatio \<Rightarrow> nat \<Rightarrow> ImageFile \<Rightarrow> Thrown + string" where
  "outcomeOf env prompt ar i img =
     (case fileToBase64 (readAsDataURL env i) (file' img) of
        Inl e \<Rightarrow> Inl e
      | Inr base64 \<Rightarrow>
          generateLifestyleImage (generateContent env i) base64 (mimeType (file' img)) prompt ar)"

definition requestOf :: "Env \<Rightarrow> string \<Rightarrow> AspectRatio \<Rightarrow> nat \<Rightarrow> ImageFile \<Rightarrow> Request option" where
  "requestOf env prompt ar i img =
     (if status img = Completed then None
      else
        (case fileToBase64 (readAsDataURL env i) (file' img) of
           Inl e \<Rightarrow> None
         | Inr base64 \<Rightarrow> Some (buildRequest base64 (mimeType (file' img)) prompt ar)))"

definition itemEvents :: "Env \<Rightarrow> string \<Rightarrow> AspectRatio \<Rightarrow> nat \<Rightarrow> ImageFile \<Rightarrow> Event list" where
  "itemEvents env prompt ar i img =
     (if status img = Completed then []
      else
        Read (file' img) #
        (case requestOf env prompt ar i img of None \<Rightarrow> [] | Some req \<Rightarrow> [Sent req]))"

definition finished :: "Env \<Rightarrow> string \<Rightarrow> AspectRatio \<Rightarrow> nat \<Rightarrow> ImageFile \<Rightarrow> ImageFile" where
  "finished env prompt ar i img =
     (if status img = Completed then img
      else
        (case outcomeOf env prompt ar i img of
           Inr url \<Rightarrow> img\<lparr>status := Completed, resultUrl := Some url\<rparr>
         | Inl e \<Rightarrow> img\<lparr>status := Error, error := message e\<rparr>))"

subsection \<open>A run, step by step, among the user's actions\<close>

text \<open>
  The same function as a transition system, so that the points between its updates and
  the handlers that run while it awaits are states. \<open>queue\<close> is \<open>images[i..]\<close> of
  the array the run closed over, \<open>jobPrompt\<close> and \<open>jobRatio\<close> are the prompt and
  the aspect ratio it closed over, and \<open>phase\<close> says where it stands with the head of
  the queue: before its iteration, awaiting \<open>fileToBase64\<close>, or awaiting
  \<open>generateLifestyleImage\<close> with the encoding it got.
\<close>

datatype Phase = AtLoop | Reading | Requesting "string option"

record Job =
  queue :: "ImageFile list"
  phase :: Phase
  jobPrompt :: string
  jobRatio :: AspectRatio

text \<open>
  Besides the component's state and the run, a state holds the record of the
  environment and the requests that have been sent and not answered yet.
\<close>

record Sys = App +
  job :: "Job option"
  pending :: "Request list"
  world :: "Event list"

definition initial :: Sys where
  "initial = \<lparr> images = [], isProcessing = False, job = None, pending = [], world = [] \<rparr>"

text \<open>
  The Process button is \<open>disabled={isProcessing || images.length === 0}\<close> and the
  Clear button \<open>disabled={isProcessing}\<close>, shown when the collection is not empty.
  The handlers that add and remove are allowed in every state; the page offers them in
  fewer, so the states reached here include those the page can reach. A run starts with
  whatever the settings are at that moment. The reader and the API answer anything. The
  identifiers are drawn at random; \<open>admits\<close> says which collections the drawing can
  lead to.
\<close>

inductive step :: "(ImageFile list \<Rightarrow> bool) \<Rightarrow> Sys \<Rightarrow> Sys \<Rightarrow> bool"
  for admits :: "ImageFile list \<Rightarrow> bool" where
  add:
    "admits (handleFileChange files (images s)) \<Longrightarrow>
     step admits s (s\<lparr>images := handleFileChange files (images s)\<rparr>)"
| remove:
    "step admits s (s\<lparr>images := removeImage i (images s)\<rparr>)"
| clear:
    "\<not> isProcessing s \<Longrightarrow> images s \<noteq> [] \<Longrightarrow>
     step admits s (clearAll s)"
| start:
    "\<not> isProcessing s \<Longrightarrow> images s \<noteq> [] \<Longrightarrow>
     step admits s
       (s\<lparr>isProcessing := True,
          job := Some \<lparr>queue = images s, phase = AtLoop,
                       jobPrompt = finalPrompt settings, jobRatio = aspectRatio settings\<rparr>\<rparr>)"
| skip:
    "job s = Some r \<Longrightarrow> queue r = img # rest \<Longrightarrow> phase r = AtLoop \<Longrightarrow>
     status img = Completed \<Longrightarrow>
     step admits s (s\<lparr>job := Some (r\<lparr>queue := rest\<rparr>)\<rparr>)"
| mark:
    "job s = Some r \<Longrightarrow> queue r = img # rest \<Longrightarrow> phase r = AtLoop \<Longrightarrow>
     status img \<noteq> Completed \<Longrightarrow>
     step admits s
       (s\<lparr>images := markProcessing (id' img) (images s),
          job := Some (r\<lparr>phase := Reading\<rparr>),
          world := world s @ [Read (file' img)]\<rparr>)"
| failed:
    "job s = Some r \<Longrightarrow> queue r = img # rest \<Longrightarrow> phase r = Reading \<Longrightarrow>
     fileToBase64 (\<lambda>f. answer) (file' img) = Inl e \<Longrightarrow>
     step admits s
       (s\<lparr>images := settle img (Inl e) (images s),
          job := Some (r\<lparr>queue := rest, phase := AtLoop\<rparr>)\<rparr>)"
| loaded:
    "job s = Some r \<Longrightarrow> queue r = img # rest \<Longrightarrow> phase r = Reading \<Longrightarrow>
     fileToBase64 (\<lambda>f. answer) (file' img) = Inr base64 \<Longrightarrow>
     req = buildRequest base64 (mimeType (file' img)) (jobPrompt r) (jobRatio r) \<Longrightarrow>
     step admits s
       (s\<lparr>job := Some (r\<lparr>phase := Requesting base64\<rparr>),
          pending := pending s @ [req],
          world := world s @ [Sent req]\<rparr>)"
| answered:
    "job s = Some r \<Longrightarrow> queue r = img # rest \<Longrightarrow> phase r = Requesting base64 \<Longrightarrow>
     req = buildRequest base64 (mimeType (file' img)) (jobPrompt r) (jobRatio r) \<Longrightarrow>
     step admits s
       (s\<lparr>images :=
            settle img
              (generateLifestyleImage (\<lambda>q. answer) base64 (mimeType (file' img))
                 (jobPrompt r) (jobRatio r))
              (images s),
          job := Some (r\<lparr>queue := rest, phase := AtLoop\<rparr>),
          pending := remove1 req (pending s)\<rparr>)"
| finish:
    "job s = Some r \<Longrightarrow> queue r = [] \<Longrightarrow> phase r = AtLoop \<Longrightarrow>
     step admits s (s\<lparr>isProcessing := False, job := None\<rparr>)"

inductive reachable :: "(ImageFile list \<Rightarrow> bool) \<Rightarrow> Sys \<Rightarrow> bool"
  for admits :: "ImageFile list \<Rightarrow> bool" where
  init: "reachable admits initial"
| after: "reachable admits s \<Longrightarrow> step admits s t \<Longrightarrow> reachable admits t"

text \<open>
  The collections in which no two items have the same identifier, and no condition at
  all.
\<close>

definition uniqueIds :: "ImageFile list \<Rightarrow> bool" where
  "uniqueIds xs = distinct (map id' xs)"

definition anyIds :: "ImageFile list \<Rightarrow> bool" where
  "anyIds xs = True"

text \<open>The invariant of the data model, in the words of the specification.\<close>

definition exactlyOneField :: "ImageFile \<Rightarrow> bool" where
  "exactlyOneField it =
     (case status it of
        Completed \<Rightarrow> resultUrl it \<noteq> None \<and> error it = None
      | Error \<Rightarrow> error it \<noteq> None \<and> resultUrl it = None
      | _ \<Rightarrow> resultUrl it = None \<and> error it = None)"

subsection \<open>Invariants of the transition system\<close>

text \<open>
  What holds of an item whatever the identifiers are, and what holds of the collection
  and of the run when identifiers never collide: no item with the identifier \<open>i\<close>
  has a result (\<open>noUrl\<close>), only completed items have one (\<open>urlOnlyCompleted\<close>),
  and the items the run has still to treat have none yet in the collection
  (\<open>queueOk\<close>).
\<close>

definition fieldsOk :: "ImageFile \<Rightarrow> bool" where
  "fieldsOk it \<longleftrightarrow>
     (status it = Pending \<longrightarrow> resultUrl it = None \<and> error it = None) \<and>
     (status it = Completed \<longrightarrow> resultUrl it \<noteq> None)"

definition noUrl :: "ImageFile list \<Rightarrow> string \<Rightarrow> bool" where
  "noUrl live i \<longleftrightarrow> (\<forall>it\<in>set live. id' it = i \<longrightarrow> resultUrl it = None)"

definition urlOnlyCompleted :: "ImageFile list \<Rightarrow> bool" where
  "urlOnlyCompleted live \<longleftrightarrow> (\<forall>it\<in>set live. resultUrl it \<noteq> None \<longrightarrow> status it = Completed)"

definition queueOk :: "ImageFile list \<Rightarrow> Job \<Rightarrow> bool" where
  "queueOk live r \<longleftrightarrow>
     distinct (map id' (queue r)) \<and>
     (phase r \<noteq> AtLoop \<longrightarrow> queue r \<noteq> [] \<and> status (hd (queue r)) \<noteq> Completed) \<and>
     (\<forall>q\<in>set (queue r). status q \<noteq> Completed \<longrightarrow> noUrl live (id' q))"

definition runInvariant :: "Sys \<Rightarrow> bool" where
  "runInvariant s \<longleftrightarrow>
     distinct (map id' (images s)) \<and> urlOnlyCompleted (images s) \<and>
     (\<forall>r. job s = Some r \<longrightarrow> queueOk (images s) r)"

text \<open>
  The requests in flight are those of the run: none unless it awaits the API, and then
  the one request of its current iteration. A run exists only while the flag is set.
\<close>

definition inFlight :: "Job option \<Rightarrow> Request list" where
  "inFlight j =
     (case j of
        None \<Rightarrow> []
      | Some r \<Rightarrow>
          (case phase r of
             Requesting base64 \<Rightarrow>
               (case queue r of
                  [] \<Rightarrow> []
                | img # rest \<Rightarrow>
                    [buildRequest base64 (mimeType (file' img)) (jobPrompt r) (jobRatio r)])
           | _ \<Rightarrow> []))"

definition oneAtATime :: "Sys \<Rightarrow> bool" where
  "oneAtATime s \<longleftrightarrow> pending s = inFlight (job s) \<and> (job s \<noteq> None \<longrightarrow> isProcessing s)"

section \<open>Example inputs\<close>

text \<open>
  A response whose first part is text and whose second part is an image declared as
  WebP, and one without any image.
\<close>

definition textThenImage :: Response where
  "textThenImage =
     \<lparr> candidates = Some [\<lparr> content = Some \<lparr> parts = Some
         [\<lparr> text' = Some ''Here is your image.'', inlineData = None \<rparr>,
          \<lparr> text' = None,
            inlineData = Some \<lparr> data = Some ''QUJD'', dataMimeType = Some ''image/webp'' \<rparr> \<rparr>] \<rparr> \<rparr>] \<rparr>"

definition textOnly :: Response where
  "textOnly =
     \<lparr> candidates = Some [\<lparr> content = Some \<lparr> parts = Some
         [\<lparr> text' = Some ''I cannot edit this image.'', inlineData = None \<rparr>] \<rparr> \<rparr>] \<rparr>"

text \<open>Three items as \<open>handleFileChange\<close> creates them, and batches of them.\<close>

definition itemA :: ImageFile where
  "itemA = newItem (''a'', \<lparr> name = ''a.jpg'', mimeType = ''image/jpeg'', bytes = ''QQ=='' \<rparr>, ''blob:a'')"

definition itemB :: ImageFile where
  "itemB = newItem (''b'', \<lparr> name = ''b.png'', mimeType = ''image/png'', bytes = ''Qg=='' \<rparr>, ''blob:b'')"

definition itemC :: ImageFile where
  "itemC = newItem (''c'', \<lparr> name = ''c.webp'', mimeType = ''image/webp'', bytes = ''Qw=='' \<rparr>, ''blob:c'')"

definition batchAB :: App where
  "batchAB = \<lparr> images = [itemA, itemB], isProcessing = False \<rparr>"

definition batchABC :: App where
  "batchABC = \<lparr> images = [itemA, itemB, itemC], isProcessing = False \<rparr>"

text \<open>A batch whose first item was completed by an earlier run.\<close>

definition doneA :: ImageFile where
  "doneA = itemA\<lparr>status := Completed, resultUrl := Some ''data:image/png;base64,T0xE''\<rparr>"

definition batchDoneB :: App where
  "batchDoneB = \<lparr> images = [doneA, itemB], isProcessing = False \<rparr>"

text \<open>
  The file of \<open>itemB\<close> under the identifier of \<open>itemA\<close>, as two draws of
  \<open>Math.random\<close> that agree would give it, and the two batches above with it in the
  place of \<open>itemB\<close>.
\<close>

definition itemA2 :: ImageFile where
  "itemA2 = newItem (''a'', \<lparr> name = ''b.png'', mimeType = ''image/png'', bytes = ''Qg=='' \<rparr>, ''blob:b'')"

definition batchShared :: App where
  "batchShared = \<lparr> images = [itemA, itemA2], isProcessing = False \<rparr>"

definition batchDoneShared :: App where
  "batchDoneShared = \<lparr> images = [doneA, itemA2], isProcessing = False \<rparr>"

text \<open>
  An environment in which every read and every request succeeds, one in which the
  request of the first iteration fails, and one in which the file of the first
  iteration cannot be read: the reader hands its error event to \<open>onerror\<close>, and an
  event has no \<open>message\<close>.
\<close>

definition envOk :: Env where
  "envOk =
     \<lparr> readAsDataURL = (\<lambda>i f. Inr (''data:'' @ mimeType f @ '';base64,'' @ bytes f)),
       generateContent = (\<lambda>i req. Inr textThenImage) \<rparr>"

definition envFirstFails :: Env where
  "envFirstFails =
     \<lparr> readAsDataURL = (\<lambda>i f. Inr (''data:'' @ mimeType f @ '';base64,'' @ bytes f)),
       generateContent = (\<lambda>i req. if i = 0 then Inl (Some ''503 Service Unavailable'')
                                    else Inr textThenImage) \<rparr>"

definition envUnreadable :: Env where
  "envUnreadable =
     \<lparr> readAsDataURL = (\<lambda>i f. if i = 0 then Inl None
                                  else Inr (''data:'' @ mimeType f @ '';base64,'' @ bytes f)),
       generateContent = (\<lambda>i req. Inr textThenImage) \<rparr>"

text \<open>
  The settings the component starts with, settings with a custom prompt, and the
  settings after the option \<open>Custom description...\<close> has been chosen and nothing
  typed.
\<close>

definition defaultSettings :: GenerationSettings where
  "defaultSettings = \<lparr> preset = SCANDINAVIAN, customPrompt = '''', aspectRatio = R1_1 \<rparr>"

definition neonSettings :: GenerationSettings where
  "neonSettings = \<lparr> preset = SCANDINAVIAN, customPrompt = ''Neon cyberpunk alley'', aspectRatio = R16_9 \<rparr>"

definition customOption :: GenerationSettings where
  "customOption = \<lparr> preset = ''CUSTOM'', customPrompt = '''', aspectRatio = R1_1 \<rparr>"

text \<open>The requests of \<open>itemA\<close> and \<open>itemB\<close> under the default settings.\<close>

definition requestA :: Request where
  "requestA = buildRequest (Some ''QQ=='') ''image/jpeg'' SCANDINAVIAN R1_1"

definition requestB :: Request where
  "requestB = buildRequest (Some ''Qg=='') ''image/png'' SCANDINAVIAN R1_1"

text \<open>The run of the default settings, standing at the queue \<open>q\<close> in the phase \<open>ph\<close>.\<close>

definition defaultJob :: "ImageFile list \<Rightarrow> Phase \<Rightarrow> Job" where
  "defaultJob q ph = \<lparr> queue = q, phase = ph, jobPrompt = SCANDINAVIAN, jobRatio = R1_1 \<rparr>"

text \<open>
  The item \<open>itemA\<close> after a run in which its request failed, and three states of a
  second run on it: while its file is read, while its request is awaited, and after
  the request has succeeded.
\<close>

definition failedA :: ImageFile where
  "failedA = itemA\<lparr>status := Error, error := Some ''503 Service Unavailable''\<rparr>"

definition retrying :: Sys where
  "retrying =
     \<lparr> images = [failedA\<lparr>status := Processing\<rparr>], isProcessing = True,
       job = Some (defaultJob [failedA] Reading), pending = [],
       world = [Read (file' itemA), Sent requestA, Read (file' itemA)] \<rparr>"

definition requesting :: Sys where
  "requesting =
     \<lparr> images = [failedA\<lparr>status := Processing\<rparr>], isProcessing = True,
       job = Some (defaultJob [failedA] (Requesting (Some ''QQ==''))), pending = [requestA],
       world = [Read (file' itemA), Sent requestA, Read (file' itemA), Sent requestA] \<rparr>"

definition retried :: Sys where
  "retried =
     \<lparr> images = [failedA\<lparr>status := Completed, resultUrl := Some ''data:image/png;base64,QUJD''\<rparr>],
       isProcessing = True,
       job = Some (defaultJob [] AtLoop), pending = [],
       world = [Read (file' itemA), Sent requestA, Read (file' itemA), Sent requestA] \<rparr>"

text \<open>The state after the file of \<open>itemA\<close> could not be read.\<close>

definition unread :: Sys where
  "unread =
     \<lparr> images = [itemA\<lparr>status := Error, error := None\<rparr>], isProcessing = True,
       job = Some (defaultJob [] AtLoop), pending = [],
       world = [Read (file' itemA)] \<rparr>"

text \<open>
  The state of a run on \<open>itemA\<close> and \<open>itemA2\<close> when it takes up the second: the
  first iteration has completed both.
\<close>

definition sharedTaken :: Sys where
  "sharedTaken =
     \<lparr> images = [itemA\<lparr>status := Processing, resultUrl := Some ''data:image/png;base64,QUJD''\<rparr>,
                 itemA2\<lparr>status := Processing, resultUrl := Some ''data:image/png;base64,QUJD''\<rparr>],
       isProcessing = True,
       job = Some (defaultJob [itemA2] Reading), pending = [],
       world = [Read (file' itemA), Sent requestA, Read (file' itemA2)] \<rparr>"

section \<open>Properties of the image request client\<close>

text \<open>The equations that unfold the example inputs and the functions of a run.\<close>

lemmas example_defs =
  batchAB_def batchABC_def batchDoneB_def batchShared_def batchDoneShared_def
  itemA_def itemB_def itemC_def itemA2_def doneA_def newItem_def
  envOk_def envFirstFails_def envUnreadable_def
  defaultSettings_def neonSettings_def customOption_def textThenImage_def

lemmas run_defs =
  startProcessing_def processItem_def fileToBase64_io_def generateLifestyleImage_io_def
  reader_def client_def fileToBase64_def generateLifestyleImage_def
  responseParts_def at_index_def settle_def markProcessing_def
  markCompleted_def markError_def finalPrompt_def Let_def

lemma scanParts_firstInline:
  "scanParts ps = (case firstInline ps of None \<Rightarrow> '''' | Some d \<Rightarrow> ''data:image/png;base64,'' @ interpolate (data d))"
  by (induction ps) (auto simp: firstInline_def split: option.splits)

lemma scanParts_empty_iff: "scanParts ps = '''' \<longleftrightarrow> (\<forall>p\<in>set ps. inlineData p = None)"
  by (induction ps) (auto split: option.splits)

lemma firstInline_append:
  "\<forall>x\<in>set pre. inlineData x = None \<Longrightarrow> inlineData q = Some d \<Longrightarrow> firstInline (pre @ q # post) = Some d"
  by (induction pre) (auto simp: firstInline_def)

text \<open>
  Claim C7. The parts of the response are scanned in order and the result is built from
  the first part that carries inline data: when the parts before \<open>q\<close> carry none and
  \<open>q\<close> carries \<open>d\<close>, the call returns the data of \<open>d\<close> behind the data-URL
  prefix, whatever comes after \<open>q\<close>.
\<close>

theorem first_inline_part_returned:
  assumes "api (buildRequest b m p ar) = Inr response"
      and "responseParts response = pre @ q # post"
      and "\<forall>x\<in>set pre. inlineData x = None"
      and "inlineData q = Some d"
  shows "generateLifestyleImage api b m p ar
           = Inr (''data:image/png;base64,'' @ interpolate (data d))"
  using assms by (simp add: generateLifestyleImage_def scanParts_firstInline firstInline_append)

text \<open>
  For C7: a response whose first part is text and whose second part is an image yields
  the image of the second part.
\<close>

theorem first_inline_part_returned_witness:
  "generateLifestyleImage (\<lambda>req. Inr textThenImage) (Some ''QQ=='') ''image/jpeg'' ''a desk'' R1_1
     = Inr ''data:image/png;base64,QUJD''"
  using first_inline_part_returned[of "\<lambda>req. Inr textThenImage" "Some ''QQ==''" "''image/jpeg''"
          "''a desk''" R1_1 textThenImage
          "[\<lparr> text' = Some ''Here is your image.'', inlineData = None \<rparr>]"
          "\<lparr> text' = None,
            inlineData = Some \<lparr> data = Some ''QUJD'', dataMimeType = Some ''image/webp'' \<rparr> \<rparr>"
          "[]" "\<lparr> data = Some ''QUJD'', dataMimeType = Some ''image/webp'' \<rparr>"]
  by (simp add: textThenImage_def responseParts_def at_index_def)

text \<open>
  Claim C8. The call fails with the "no image" error exactly when the API answered and
  no part of the answer carries inline data.
\<close>

theorem no_image_error_iff:
  "generateLifestyleImage api b m p ar = Inl NoImageError \<longleftrightarrow>
     (\<exists>response. api (buildRequest b m p ar) = Inr response \<and>
        (\<forall>x\<in>set (responseParts response). inlineData x = None))"
  by (auto simp: generateLifestyleImage_def scanParts_empty_iff Let_def split: sum.splits)

text \<open>
  For C8: an answer of text only gives the error; an answer with an image does not, and
  neither does a failed request, whose own error is passed on.
\<close>

theorem no_image_error_iff_witness:
  "generateLifestyleImage (\<lambda>req. Inr textOnly) (Some ''QQ=='') ''image/jpeg'' ''a desk'' R1_1
     = Inl NoImageError
   \<and> generateLifestyleImage (\<lambda>req. Inr textThenImage) (Some ''QQ=='') ''image/jpeg'' ''a desk'' R1_1
     \<noteq> Inl NoImageError
   \<and> generateLifestyleImage (\<lambda>req. Inl (Some ''fetch failed'')) (Some ''QQ=='') ''image/jpeg'' ''a desk'' R1_1
     \<noteq> Inl NoImageError"
  using no_image_error_iff[of "\<lambda>req. Inr textOnly" "Some ''QQ==''" "''image/jpeg''" "''a desk''" R1_1]
        no_image_error_iff[of "\<lambda>req. Inr textThenImage" "Some ''QQ==''" "''image/jpeg''" "''a desk''" R1_1]
        no_image_error_iff[of "\<lambda>req. Inl (Some ''fetch failed'')" "Some ''QQ==''" "''image/jpeg''" "''a desk''" R1_1]
  by (simp add: textOnly_def textThenImage_def responseParts_def at_index_def)

text \<open>
  Claim C10. Every string the call returns is \<open>data:image/png;base64,\<close> followed by
  the inline data of the first part that has any, for every media type of the input
  (\<open>m\<close>) and every media type the answer declares (\<open>dataMimeType d\<close>); a part
  whose inline data has no \<open>data\<close> is rendered as the template literal renders it.
\<close>

theorem result_declares_png:
  assumes "generateLifestyleImage api b m p ar = Inr url"
  shows "\<exists>response d. api (buildRequest b m p ar) = Inr response \<and>
           firstInline (responseParts response) = Some d \<and>
           url = ''data:image/png;base64,'' @ interpolate (data d)"
  using assms
  by (auto simp: generateLifestyleImage_def scanParts_firstInline Let_def split: sum.splits option.splits if_splits)

text \<open>For C10: a JPEG goes in, the answer declares WebP, the result declares PNG.\<close>

theorem result_declares_png_witness:
  "\<exists>response d.
      response = textThenImage \<and> dataMimeType d = Some ''image/webp'' \<and>
      firstInline (responseParts response) = Some d \<and>
      ''data:image/png;base64,QUJD'' = ''data:image/png;base64,'' @ interpolate (data d)"
proof -
  have r: "generateLifestyleImage (\<lambda>req. Inr textThenImage) (Some ''QQ=='') ''image/jpeg'' ''a desk'' R1_1
             = Inr ''data:image/png;base64,QUJD''"
    by (simp add: generateLifestyleImage_def textThenImage_def responseParts_def at_index_def)
  from result_declares_png[OF r]
  show ?thesis
    by (auto simp: textThenImage_def responseParts_def at_index_def firstInline_def)
qed

section \<open>Properties of a run\<close>

subsection \<open>The updates\<close>

lemma mark_absent:
  "i \<notin> id' ` set prev \<Longrightarrow> markProcessing i prev = prev"
  "i \<notin> id' ` set prev \<Longrightarrow> markCompleted i url prev = prev"
  "i \<notin> id' ` set prev \<Longrightarrow> markError i msg prev = prev"
  by (induction prev) (auto simp: markProcessing_def markCompleted_def markError_def)

lemma mark_ids:
  "map id' (markProcessing i prev) = map id' prev"
  "map id' (markCompleted i url prev) = map id' prev"
  "map id' (markError i msg prev) = map id' prev"
  by (induction prev) (auto simp: markProcessing_def markCompleted_def markError_def)

lemma settle_ids: "map id' (settle img out prev) = map id' prev"
  by (cases out) (simp_all add: settle_def mark_ids)

lemma settle_mark_map:
  "settle img out (markProcessing (id' img) live)
     = map (\<lambda>y. if id' y = id' img
                  then (case out of
                          Inr url \<Rightarrow> y\<lparr>status := Completed, resultUrl := Some url\<rparr>
                        | Inl e \<Rightarrow> y\<lparr>status := Error, error := message e\<rparr>)
                  else y) live"
  by (cases out) (simp_all add: settle_def markProcessing_def markCompleted_def markError_def)

lemma settle_mark_terminal:
  assumes "x \<in> set (settle img out (markProcessing (id' img) live))"
  shows "\<exists>y\<in>set live. id' y = id' x \<and>
           (if id' y = id' img then status x = Completed \<or> status x = Error else x = y)"
proof -
  from assms obtain y where y: "y \<in> set live"
    and x: "x = (if id' y = id' img
                  then (case out of
                          Inr url \<Rightarrow> y\<lparr>status := Completed, resultUrl := Some url\<rparr>
                        | Inl e \<Rightarrow> y\<lparr>status := Error, error := message e\<rparr>)
                  else y)"
    unfolding settle_mark_map by auto
  from x have "id' y = id' x \<and>
           (if id' y = id' img then status x = Completed \<or> status x = Error else x = y)"
    by (cases out) auto
  with y show ?thesis by blast
qed

lemma settle_mark_single:
  assumes "id' img \<notin> id' ` set pre" "id' img \<notin> id' ` set post"
  shows "settle img out (markProcessing (id' img) (pre @ img # post))
           = pre @ (case out of
                      Inr url \<Rightarrow> img\<lparr>status := Completed, resultUrl := Some url\<rparr>
                    | Inl e \<Rightarrow> img\<lparr>status := Error, error := message e\<rparr>) # post"
proof -
  have "\<And>xs. id' img \<notin> id' ` set xs \<Longrightarrow>
          map (\<lambda>y. if id' y = id' img
                  then (case out of
                          Inr url \<Rightarrow> y\<lparr>status := Completed, resultUrl := Some url\<rparr>
                        | Inl e \<Rightarrow> y\<lparr>status := Error, error := message e\<rparr>)
                  else y) xs = xs"
    by (rule map_idI) (auto simp: image_iff)
  from this[OF assms(1)] this[OF assms(2)] show ?thesis
    by (simp add: settle_mark_map)
qed

text \<open>
  Claim C9. When no item of the collection has the identifier of the item whose request
  is settled, the update applied on success and the one applied on failure return the
  collection as it is: nothing is raised (the updates are total) and nothing is put
  back.
\<close>

theorem stale_result_discarded:
  assumes "id' img \<notin> id' ` set prev"
  shows "settle img outcome prev = prev
       \<and> markCompleted (id' img) url prev = prev
       \<and> markError (id' img) msg prev = prev"
  using assms by (cases outcome) (simp_all add: settle_def mark_absent)

text \<open>
  For C9: \<open>itemA\<close> is removed while its request is in flight; whichever way the
  request ends, the collection stays \<open>[itemB]\<close>.
\<close>

theorem stale_result_discarded_witness:
  "''a'' \<notin> id' ` set (removeImage ''a'' [itemA, itemB])
   \<and> settle itemA (Inr ''data:image/png;base64,QUJD'') (removeImage ''a'' [itemA, itemB]) = [itemB]
   \<and> markCompleted ''a'' ''data:image/png;base64,QUJD'' (removeImage ''a'' [itemA, itemB]) = [itemB]
   \<and> markError ''a'' (Some ''fetch failed'') (removeImage ''a'' [itemA, itemB]) = [itemB]"
proof -
  have h: "id' itemA \<notin> id' ` set (removeImage ''a'' [itemA, itemB])"
    by (simp add: removeImage_def example_defs)
  from stale_result_discarded[OF h, of "Inr ''data:image/png;base64,QUJD''"
         "''data:image/png;base64,QUJD''" "Some ''fetch failed''"] h
  show ?thesis
    by (simp add: removeImage_def example_defs)
qed


subsection \<open>The record of the environment\<close>

text \<open>
  With an environment whose answers do not depend on its state, the functions that hand
  the state through return what the functions without it return, and the state is
  changed once, by the one question asked.
\<close>

lemma fileToBase64_io_pure:
  "fileToBase64_io (\<lambda>f w. (rd f, g f w)) f w = (fileToBase64 rd f, g f w)"
  by (simp add: fileToBase64_io_def fileToBase64_def split: sum.splits)

lemma generateLifestyleImage_io_pure:
  "generateLifestyleImage_io (\<lambda>req w. (api req, g req w)) b m p ar w
     = (generateLifestyleImage api b m p ar, g (buildRequest b m p ar) w)"
  by (simp add: generateLifestyleImage_io_def generateLifestyleImage_def Let_def split: sum.splits)

lemma reader_split: "reader env i = (\<lambda>f w. (readAsDataURL env i f, w @ [Read f]))"
  by (simp add: reader_def fun_eq_iff)

lemma client_split: "client env i = (\<lambda>req w. (generateContent env i req, w @ [Sent req]))"
  by (simp add: client_def fun_eq_iff)

text \<open>A call of \<open>generateLifestyleImage\<close> sends one request, whatever the answer.\<close>

lemma one_request_per_call:
  "snd (generateLifestyleImage_io (client env i) b m p ar w) = w @ [Sent (buildRequest b m p ar)]"
  by (simp add: client_split generateLifestyleImage_io_pure)

text \<open>
  The body of the \<open>try\<close> block does what the description of an iteration says:
  its outcome is that of the two functions against the answers of the environment, and
  the environment sees the read and, when the file could be read, the one request.
\<close>

lemma processItem_eq:
  assumes "status img \<noteq> Completed"
  shows "processItem env p ar i img w = (outcomeOf env p ar i img, w @ itemEvents env p ar i img)"
  using assms
  by (simp add: processItem_def reader_split client_split fileToBase64_io_pure
        generateLifestyleImage_io_pure outcomeOf_def itemEvents_def requestOf_def
      split: sum.splits)

subsection \<open>The loop\<close>

lemma processFrom_ids:
  "map id' (fst (processFrom env p ar i rest acc)) = map id' (fst acc)"
  by (induction rest arbitrary: i acc) (simp_all add: Let_def settle_ids mark_ids)

lemma processFrom_world:
  "snd (processFrom env p ar i rest acc)
     = snd acc @ concat (map (\<lambda>(k, img). itemEvents env p ar k img) (List.enumerate i rest))"
proof (induction rest arbitrary: i acc)
  case Nil
  show ?case by simp
next
  case (Cons img rest)
  show ?case
  proof (cases "status img = Completed")
    case True
    with Cons.IH[of "Suc i" acc] show ?thesis
      by (simp add: itemEvents_def)
  next
    case False
    from Cons.IH[of "Suc i" "(settle img (outcomeOf env p ar i img) (markProcessing (id' img) (fst acc)),
                             snd acc @ itemEvents env p ar i img)"] False
    show ?thesis
      by (simp add: Let_def processItem_eq)
  qed
qed

lemma processFrom_terminal:
  assumes "\<forall>x\<in>set (fst acc). status x = Completed \<or> status x = Error \<or>
             (\<exists>q\<in>set rest. id' q = id' x \<and> status q \<noteq> Completed)"
  shows "\<forall>x\<in>set (fst (processFrom env p ar i rest acc)). status x = Completed \<or> status x = Error"
  using assms
proof (induction rest arbitrary: i acc)
  case Nil
  then show ?case by simp
next
  case (Cons img rest)
  show ?case
  proof (cases "status img = Completed")
    case True
    have "\<forall>x\<in>set (fst acc). status x = Completed \<or> status x = Error \<or>
             (\<exists>q\<in>set rest. id' q = id' x \<and> status q \<noteq> Completed)"
      using Cons.prems True by auto
    from Cons.IH[OF this] True show ?thesis by simp
  next
    case False
    let ?r = "processItem env p ar i img (snd acc)"
    let ?acc = "(settle img (fst ?r) (markProcessing (id' img) (fst acc)), snd ?r)"
    have "\<forall>x\<in>set (fst ?acc). status x = Completed \<or> status x = Error \<or>
             (\<exists>q\<in>set rest. id' q = id' x \<and> status q \<noteq> Completed)"
    proof
      fix x assume "x \<in> set (fst ?acc)"
      then have "x \<in> set (settle img (fst ?r) (markProcessing (id' img) (fst acc)))"
        by simp
      from settle_mark_terminal[OF this]
      obtain y where y: "y \<in> set (fst acc)" "id' y = id' x"
        "if id' y = id' img then status x = Completed \<or> status x = Error else x = y"
        by blast
      show "status x = Completed \<or> status x = Error \<or>
             (\<exists>q\<in>set rest. id' q = id' x \<and> status q \<noteq> Completed)"
      proof (cases "id' y = id' img")
        case True with y show ?thesis by auto
      next
        case F: False
        with y have "x = y" by simp
        with y(1) Cons.prems F show ?thesis by auto
      qed
    qed
    from Cons.IH[OF this] False show ?thesis by (simp add: Let_def)
  qed
qed

lemma processFrom_distinct:
  assumes "distinct (map id' rest)" "\<forall>x\<in>set pre. id' x \<notin> id' ` set rest"
  shows "fst (processFrom env p ar i rest (pre @ rest, w))
           = pre @ map (\<lambda>(k, img). finished env p ar k img) (List.enumerate i rest)"
  using assms
proof (induction rest arbitrary: i pre w)
  case Nil
  then show ?case by simp
next
  case (Cons img rest)
  have d: "distinct (map id' rest)" and n: "id' img \<notin> id' ` set rest"
    using Cons.prems(1) by auto
  have npre: "id' img \<notin> id' ` set pre"
    using Cons.prems(2) by auto
  show ?case
  proof (cases "status img = Completed")
    case True
    have "\<forall>x\<in>set (pre @ [img]). id' x \<notin> id' ` set rest"
      using Cons.prems(2) n by auto
    from Cons.IH[OF d this, of "Suc i" w] True
    show ?thesis by (simp add: finished_def)
  next
    case False
    let ?img = "case outcomeOf env p ar i img of
                      Inr url \<Rightarrow> img\<lparr>status := Completed, resultUrl := Some url\<rparr>
                    | Inl e \<Rightarrow> img\<lparr>status := Error, error := message e\<rparr>"
    have idq: "id' ?img = id' img"
      by (cases "outcomeOf env p ar i img") auto
    have "\<forall>x\<in>set (pre @ [?img]). id' x \<notin> id' ` set rest"
      using Cons.prems(2) n idq by auto
    from Cons.IH[OF d this, of "Suc i" "w @ itemEvents env p ar i img"] False
    show ?thesis
      by (simp add: Let_def processItem_eq settle_mark_single[OF npre n] finished_def)
  qed
qed

lemma processFrom_untouched:
  assumes "k < length live"
      and "\<forall>q\<in>set rest. status q \<noteq> Completed \<longrightarrow> id' q \<noteq> id' (live ! k)"
  shows "fst (processFrom env p ar i rest (live, w)) ! k = live ! k"
  using assms
proof (induction rest arbitrary: i live w)
  case Nil
  show ?case by simp
next
  case (Cons img rest)
  show ?case
  proof (cases "status img = Completed")
    case True
    with Cons.IH[of live "Suc i" w] Cons.prems show ?thesis by simp
  next
    case False
    let ?out = "fst (processItem env p ar i img w)"
    let ?live = "settle img ?out (markProcessing (id' img) live)"
    from Cons.prems(2) False have ne: "id' (live ! k) \<noteq> id' img" by auto
    have len: "length ?live = length live"
      by (simp add: settle_mark_map)
    have same: "?live ! k = live ! k"
      using Cons.prems(1) ne by (simp add: settle_mark_map)
    have "\<forall>q\<in>set rest. status q \<noteq> Completed \<longrightarrow> id' q \<noteq> id' (?live ! k)"
      using Cons.prems(2) same by simp
    from Cons.IH[of ?live "Suc i" "snd (processItem env p ar i img w)", OF _ this] len Cons.prems(1) same False
    show ?thesis by (simp add: Let_def)
  qed
qed

lemma startProcessing_distinct:
  assumes "distinct (map id' (images a))"
  shows "images (fst (startProcessing env settings a))
           = map (\<lambda>(k, img). finished env (finalPrompt settings) (aspectRatio settings) k img)
               (List.enumerate 0 (images a))"
  using processFrom_distinct[OF assms, of "[]" env "finalPrompt settings" "aspectRatio settings" 0 "[]"]
  by (auto simp: startProcessing_def Let_def)

lemma startProcessing_nth:
  assumes "distinct (map id' (images a))" "k < length (images a)"
  shows "images (fst (startProcessing env settings a)) ! k
           = finished env (finalPrompt settings) (aspectRatio settings) k (images a ! k)"
  using assms by (simp add: startProcessing_distinct nth_enumerate_eq)

lemma startProcessing_untouched:
  assumes "k < length (images a)"
      and "\<forall>q\<in>set (images a). status q \<noteq> Completed \<longrightarrow> id' q \<noteq> id' (images a ! k)"
  shows "images (fst (startProcessing env settings a)) ! k = images a ! k"
  using processFrom_untouched[OF assms, of env "finalPrompt settings" "aspectRatio settings" 0 "[]"] assms(1)
  by (auto simp: startProcessing_def Let_def)

lemma startProcessing_world:
  "snd (startProcessing env settings a)
     = concat (map (\<lambda>(k, img). itemEvents env (finalPrompt settings) (aspectRatio settings) k img)
                 (List.enumerate 0 (images a)))"
  by (auto simp: startProcessing_def Let_def processFrom_world)

text \<open>
  Claim C2. After a run, every item of the collection is completed or in error, and the
  collection holds the items it held at the start, in the same order.
\<close>

theorem run_ends_terminal:
  "(\<forall>it\<in>set (images (fst (startProcessing env settings a))).
       status it = Completed \<or> status it = Error) \<and>
   map id' (images (fst (startProcessing env settings a))) = map id' (images a)"
proof -
  have "\<forall>x\<in>set (fst (images a, [] :: Event list)). status x = Completed \<or> status x = Error \<or>
             (\<exists>q\<in>set (images a). id' q = id' x \<and> status q \<noteq> Completed)"
    by auto
  from processFrom_terminal[OF this]
  show ?thesis
    by (auto simp: startProcessing_def Let_def processFrom_ids)
qed

text \<open>For C2: a batch of two whose first request fails ends as error, completed.\<close>

theorem run_ends_terminal_witness:
  "map status (images (fst (startProcessing envFirstFails defaultSettings batchAB))) = [Error, Completed]
   \<and> map id' (images (fst (startProcessing envFirstFails defaultSettings batchAB))) = [''a'', ''b'']"
  using run_ends_terminal[of envFirstFails defaultSettings batchAB]
  by (simp add: example_defs run_defs)

subsection \<open>What the environment records of a run\<close>

lemma requests_append: "requests (xs @ ys) = requests xs @ requests ys"
  by (induction xs rule: requests.induct) simp_all

lemma reads_append: "reads (xs @ ys) = reads xs @ reads ys"
  by (induction xs rule: reads.induct) simp_all

lemma requests_itemEvents:
  "requests (itemEvents env p ar k img)
     = (case requestOf env p ar k img of None \<Rightarrow> [] | Some req \<Rightarrow> [req])"
  by (simp add: itemEvents_def requestOf_def split: sum.splits)

lemma reads_itemEvents:
  "reads (itemEvents env p ar k img) = (if status img = Completed then [] else [file' img])"
  by (simp add: itemEvents_def split: option.splits)

lemma requests_run:
  "requests (concat (map (\<lambda>(k, img). itemEvents env p ar k img) (List.enumerate i xs)))
     = List.map_filter (\<lambda>(k, img). requestOf env p ar k img) (List.enumerate i xs)"
  by (induction xs arbitrary: i)
     (simp_all add: requests_append requests_itemEvents map_filter_simps split: option.splits)

lemma reads_run:
  "reads (concat (map (\<lambda>(k, img). itemEvents env p ar k img) (List.enumerate i xs)))
     = map file' (filter (\<lambda>img. status img \<noteq> Completed) xs)"
  by (induction xs arbitrary: i) (simp_all add: reads_append reads_itemEvents)

lemma requestOf_built:
  "requestOf env p ar k img = Some req \<Longrightarrow> \<exists>b. req = buildRequest b (mimeType (file' img)) p ar"
  by (auto simp: requestOf_def split: if_splits sum.splits)

lemma requests_built:
  "req \<in> set (List.map_filter (\<lambda>(k, img). requestOf env p ar k img) xs) \<Longrightarrow>
   \<exists>b m. req = buildRequest b m p ar"
proof (induction xs)
  case Nil
  then show ?case by (simp add: map_filter_simps)
next
  case (Cons x xs)
  obtain k img where x: "x = (k, img)" by (cases x)
  show ?case
  proof (cases "requestOf env p ar k img")
    case None
    with Cons x show ?thesis by (simp add: map_filter_simps)
  next
    case (Some r)
    from requestOf_built[OF Some] Cons x Some show ?thesis
      by (auto simp: map_filter_simps)
  qed
qed

section \<open>The run as a path of the transition system\<close>

text \<open>
  The loop, taken from start to end, is one path of the transition system: the one on
  which no handler runs between the updates, and the reader and the API answer as the
  environment of the run does. The record of the environment at the end of the path is
  the record of the run. So what holds of every reachable state holds of the states a
  whole run passes through and ends in.
\<close>

lemma processFrom_path:
  "(step admits)\<^sup>*\<^sup>*
     \<lparr> images = live, isProcessing = True,
       job = Some \<lparr>queue = rest, phase = AtLoop, jobPrompt = p, jobRatio = ar\<rparr>,
       pending = [], world = w \<rparr>
     \<lparr> images = fst (processFrom env p ar i rest (live, w)), isProcessing = True,
       job = Some \<lparr>queue = [], phase = AtLoop, jobPrompt = p, jobRatio = ar\<rparr>,
       pending = [], world = snd (processFrom env p ar i rest (live, w)) \<rparr>"
proof (induction rest arbitrary: i live w)
  case Nil
  show ?case by simp
next
  case (Cons img rest)
  let ?job = "\<lambda>q ph. \<lparr>queue = q, phase = ph, jobPrompt = p, jobRatio = ar\<rparr>"
  let ?s = "\<lparr> images = live, isProcessing = True, job = Some (?job (img # rest) AtLoop),
              pending = [], world = w \<rparr>"
  have j: "job ?s = Some (?job (img # rest) AtLoop)" "queue (?job (img # rest) AtLoop) = img # rest"
    "phase (?job (img # rest) AtLoop) = AtLoop"
    by simp_all
  show ?case
  proof (cases "status img = Completed")
    case True
    from step.skip[OF j True, of admits]
    have "step admits ?s \<lparr> images = live, isProcessing = True, job = Some (?job rest AtLoop),
                             pending = [], world = w \<rparr>"
      by simp
    with Cons.IH[of live w "Suc i"] True show ?thesis
      by (simp add: converse_rtranclp_into_rtranclp)
  next
    case False
    let ?marked = "markProcessing (id' img) live"
    let ?w1 = "w @ [Read (file' img)]"
    let ?m = "\<lparr> images = ?marked, isProcessing = True, job = Some (?job (img # rest) Reading),
                pending = [], world = ?w1 \<rparr>"
    let ?out = "outcomeOf env p ar i img"
    let ?n = "\<lparr> images = settle img ?out ?marked, isProcessing = True,
                job = Some (?job rest AtLoop), pending = [],
                world = w @ itemEvents env p ar i img \<rparr>"
    from step.mark[OF j False, of admits]
    have 1: "step admits ?s ?m"
      by simp
    have jm: "job ?m = Some (?job (img # rest) Reading)" "queue (?job (img # rest) Reading) = img # rest"
      "phase (?job (img # rest) Reading) = Reading"
      by simp_all
    have rd: "fileToBase64 (\<lambda>f. readAsDataURL env i (file' img)) (file' img)
                = fileToBase64 (readAsDataURL env i) (file' img)"
      by (simp add: fileToBase64_def)
    have 2: "(step admits)\<^sup>*\<^sup>* ?m ?n"
    proof (cases "fileToBase64 (readAsDataURL env i) (file' img)")
      case (Inl e)
      with rd have "fileToBase64 (\<lambda>f. readAsDataURL env i (file' img)) (file' img) = Inl e"
        by simp
      from step.failed[OF jm this, of admits] Inl False
      have "step admits ?m ?n"
        by (simp add: outcomeOf_def itemEvents_def requestOf_def)
      then show ?thesis by (rule r_into_rtranclp)
    next
      case (Inr b)
      let ?req = "buildRequest b (mimeType (file' img)) p ar"
      let ?q = "\<lparr> images = ?marked, isProcessing = True,
                  job = Some (?job (img # rest) (Requesting b)),
                  pending = [?req], world = ?w1 @ [Sent ?req] \<rparr>"
      from Inr rd have "fileToBase64 (\<lambda>f. readAsDataURL env i (file' img)) (file' img) = Inr b"
        by simp
      from step.loaded[OF jm this, of ?req admits]
      have a: "step admits ?m ?q"
        by simp
      have jq: "job ?q = Some (?job (img # rest) (Requesting b))"
        "queue (?job (img # rest) (Requesting b)) = img # rest"
        "phase (?job (img # rest) (Requesting b)) = Requesting b"
        by simp_all
      have gl: "generateLifestyleImage (\<lambda>q. generateContent env i ?req) b (mimeType (file' img)) p ar
                  = ?out"
        using Inr by (simp add: outcomeOf_def generateLifestyleImage_def)
      from step.answered[OF jq, of ?req admits "generateContent env i ?req"] gl Inr False
      have b: "step admits ?q ?n"
        by (simp add: itemEvents_def requestOf_def)
      from a b show ?thesis
        by (meson converse_rtranclp_into_rtranclp r_into_rtranclp)
    qed
    from Cons.IH[of "settle img ?out ?marked" "w @ itemEvents env p ar i img" "Suc i"] False
    have 3: "(step admits)\<^sup>*\<^sup>* ?n
            \<lparr> images = fst (processFrom env p ar i (img # rest) (live, w)), isProcessing = True,
              job = Some (?job [] AtLoop), pending = [],
              world = snd (processFrom env p ar i (img # rest) (live, w)) \<rparr>"
      by (simp add: Let_def processItem_eq)
    from 1 2 3 show ?thesis
      by (meson converse_rtranclp_into_rtranclp rtranclp_trans)
  qed
qed

lemma startProcessing_path:
  assumes "images a \<noteq> []"
  shows "(step admits)\<^sup>*\<^sup>*
           \<lparr> images = images a, isProcessing = False, job = None, pending = [], world = [] \<rparr>
           \<lparr> images = images (fst (startProcessing env settings a)), isProcessing = False,
             job = None, pending = [], world = snd (startProcessing env settings a) \<rparr>"
proof -
  let ?p = "finalPrompt settings" and ?ar = "aspectRatio settings"
  let ?s = "\<lparr> images = images a, isProcessing = False, job = None, pending = [],
              world = [] :: Event list \<rparr>"
  let ?r = "processFrom env ?p ?ar 0 (images a) (images a, [])"
  let ?e = "\<lparr> images = fst ?r, isProcessing = True,
              job = Some \<lparr>queue = [], phase = AtLoop, jobPrompt = ?p, jobRatio = ?ar\<rparr>,
              pending = [], world = snd ?r \<rparr>"
  have "\<not> isProcessing ?s" "images ?s \<noteq> []"
    using assms by simp_all
  from step.start[OF this, of admits settings]
  have 1: "step admits ?s
             \<lparr> images = images a, isProcessing = True,
               job = Some \<lparr>queue = images a, phase = AtLoop, jobPrompt = ?p, jobRatio = ?ar\<rparr>,
               pending = [], world = [] \<rparr>"
    by simp
  have "job ?e = Some \<lparr>queue = [], phase = AtLoop, jobPrompt = ?p, jobRatio = ?ar\<rparr>"
    "queue \<lparr>queue = [], phase = AtLoop, jobPrompt = ?p, jobRatio = ?ar\<rparr> = []"
    "phase \<lparr>queue = [], phase = AtLoop, jobPrompt = ?p, jobRatio = ?ar\<rparr> = AtLoop"
    by simp_all
  from step.finish[OF this, of admits]
  have 3: "step admits ?e \<lparr> images = fst ?r, isProcessing = False, job = None,
                             pending = [], world = snd ?r \<rparr>"
    by simp
  from 1 processFrom_path[of admits "images a" "images a" ?p ?ar "[]" env 0] 3
  have "(step admits)\<^sup>*\<^sup>* ?s \<lparr> images = fst ?r, isProcessing = False, job = None,
                                      pending = [], world = snd ?r \<rparr>"
    by (meson converse_rtranclp_into_rtranclp rtranclp.rtrancl_into_rtrancl)
  with assms show ?thesis
    by (simp add: startProcessing_def Let_def)
qed

lemma reachable_path:
  "(step admits)\<^sup>*\<^sup>* s t \<Longrightarrow> reachable admits s \<Longrightarrow> reachable admits t"
  by (induction rule: rtranclp_induct) (auto intro: reachable.after)

subsection \<open>One request at a time\<close>

lemma oneAtATime_step:
  assumes "step admits s t" "oneAtATime s"
  shows "oneAtATime t"
  using assms(1)
proof (cases rule: step.cases)
  case (add files)
  with assms(2) show ?thesis by (simp add: oneAtATime_def)
next
  case (remove i)
  with assms(2) show ?thesis by (simp add: oneAtATime_def)
next
  case clear
  with assms(2) show ?thesis by (auto simp: oneAtATime_def clearAll_def)
next
  case (start settings)
  with assms(2) have "job s = None" by (auto simp: oneAtATime_def)
  with start assms(2) show ?thesis by (simp add: oneAtATime_def inFlight_def)
next
  case (skip r img rest)
  with assms(2) show ?thesis by (simp add: oneAtATime_def inFlight_def)
next
  case (mark r img rest)
  with assms(2) show ?thesis by (simp add: oneAtATime_def inFlight_def)
next
  case (failed r img rest answer e)
  with assms(2) show ?thesis by (simp add: oneAtATime_def inFlight_def)
next
  case (loaded r img rest answer base64 req)
  with assms(2) show ?thesis by (simp add: oneAtATime_def inFlight_def)
next
  case (answered r img rest base64 req answer)
  with assms(2) show ?thesis by (simp add: oneAtATime_def inFlight_def)
next
  case (finish r)
  with assms(2) show ?thesis by (simp add: oneAtATime_def inFlight_def)
qed

lemma oneAtATime_reachable: "reachable admits s \<Longrightarrow> oneAtATime s"
  by (induction rule: reachable.induct)
     (auto simp: oneAtATime_def initial_def inFlight_def dest: oneAtATime_step)

lemma inFlight_short: "length (inFlight j) \<le> 1"
  by (simp add: inFlight_def split: option.splits Phase.splits list.splits)

section \<open>The claims about the calls\<close>

text \<open>
  Claim C3. The requests the API receives in a run, one per call of
  \<open>generateLifestyleImage\<close>, are those of the items that are not completed and
  whose file could be read, in the order of the batch at the start; and in no state
  reachable by the public operations is more than one request awaiting its answer.
\<close>

theorem calls_in_insertion_order:
  "requests (snd (startProcessing env settings a))
     = List.map_filter
         (\<lambda>(k, img). requestOf env (finalPrompt settings) (aspectRatio settings) k img)
         (List.enumerate 0 (images a))
   \<and> (reachable admits s \<longrightarrow> length (pending s) \<le> 1)"
proof
  show "requests (snd (startProcessing env settings a))
     = List.map_filter
         (\<lambda>(k, img). requestOf env (finalPrompt settings) (aspectRatio settings) k img)
         (List.enumerate 0 (images a))"
    by (simp add: startProcessing_world requests_run)
  show "reachable admits s \<longrightarrow> length (pending s) \<le> 1"
  proof
    assume "reachable admits s"
    then have "pending s = inFlight (job s)"
      using oneAtATime_reachable by (auto simp: oneAtATime_def)
    with inFlight_short[of "job s"] show "length (pending s) \<le> 1"
      by simp
  qed
qed

text \<open>
  Claim C6, amended. Every request of a run is built from the one prompt and the one
  aspect ratio computed when the run starts. That prompt is the custom prompt when it is
  not empty, and the preset's description text when the custom prompt is empty and a
  preset is selected.
\<close>

theorem effective_prompt_fixed:
  "(\<forall>req\<in>set (requests (snd (startProcessing env settings a))).
      \<exists>b m. req = buildRequest b m (finalPrompt settings) (aspectRatio settings))
   \<and> (customPrompt settings \<noteq> '''' \<longrightarrow>
        (\<forall>req\<in>set (requests (snd (startProcessing env settings a))).
           instruction req = taskText (customPrompt settings)))
   \<and> (customPrompt settings = '''' \<and> preset settings \<in> set LifestylePreset \<longrightarrow>
        (\<forall>req\<in>set (requests (snd (startProcessing env settings a))).
           instruction req = taskText (preset settings)))"
proof -
  have built: "\<exists>b m. req = buildRequest b m (finalPrompt settings) (aspectRatio settings)"
    if "req \<in> set (requests (snd (startProcessing env settings a)))" for req
    using that unfolding startProcessing_world requests_run by (rule requests_built)
  have instr: "instruction req = taskText (finalPrompt settings)"
    if "req \<in> set (requests (snd (startProcessing env settings a)))" for req
    using built[OF that] by (auto simp: buildRequest_def)
  show ?thesis
  proof (intro conjI ballI impI)
    fix req assume "req \<in> set (requests (snd (startProcessing env settings a)))"
    then show "\<exists>b m. req = buildRequest b m (finalPrompt settings) (aspectRatio settings)"
      by (rule built)
  next
    fix req assume "customPrompt settings \<noteq> ''''"
      and "req \<in> set (requests (snd (startProcessing env settings a)))"
    with instr show "instruction req = taskText (customPrompt settings)"
      by (simp add: finalPrompt_def)
  next
    fix req assume "customPrompt settings = '''' \<and> preset settings \<in> set LifestylePreset"
      and "req \<in> set (requests (snd (startProcessing env settings a)))"
    with instr show "instruction req = taskText (preset settings)"
      by (simp add: finalPrompt_def)
  qed
qed

section \<open>The claims about one item among the others\<close>

text \<open>
  Claim C4, amended. Whatever fails, the file of every item that is not completed is
  read, in the order of the batch. In a batch of distinct identifiers every such item
  ends as its own outcome decides, whatever happened to the items before it: in error,
  with the message of the thrown value when it has one, or completed with its result.
\<close>

theorem failure_does_not_abort:
  "reads (snd (startProcessing env settings a))
     = map file' (filter (\<lambda>img. status img \<noteq> Completed) (images a))
   \<and> (distinct (map id' (images a)) \<longrightarrow>
        (\<forall>k<length (images a). status (images a ! k) \<noteq> Completed \<longrightarrow>
           (\<forall>e. outcomeOf env (finalPrompt settings) (aspectRatio settings) k (images a ! k) = Inl e \<longrightarrow>
                status (images (fst (startProcessing env settings a)) ! k) = Error
              \<and> (\<forall>m. message e = Some m \<longrightarrow>
                    error (images (fst (startProcessing env settings a)) ! k) = Some m))
         \<and> (\<forall>url. outcomeOf env (finalPrompt settings) (aspectRatio settings) k (images a ! k) = Inr url \<longrightarrow>
                status (images (fst (startProcessing env settings a)) ! k) = Completed
              \<and> resultUrl (images (fst (startProcessing env settings a)) ! k) = Some url)))"
proof
  show "reads (snd (startProcessing env settings a))
     = map file' (filter (\<lambda>img. status img \<noteq> Completed) (images a))"
    by (simp add: startProcessing_world reads_run)
  show "distinct (map id' (images a)) \<longrightarrow>
        (\<forall>k<length (images a). status (images a ! k) \<noteq> Completed \<longrightarrow>
           (\<forall>e. outcomeOf env (finalPrompt settings) (aspectRatio settings) k (images a ! k) = Inl e \<longrightarrow>
                status (images (fst (startProcessing env settings a)) ! k) = Error
              \<and> (\<forall>m. message e = Some m \<longrightarrow>
                    error (images (fst (startProcessing env settings a)) ! k) = Some m))
         \<and> (\<forall>url. outcomeOf env (finalPrompt settings) (aspectRatio settings) k (images a ! k) = Inr url \<longrightarrow>
                status (images (fst (startProcessing env settings a)) ! k) = Completed
              \<and> resultUrl (images (fst (startProcessing env settings a)) ! k) = Some url))"
  proof (intro impI allI conjI)
    fix k e m
    assume d: "distinct (map id' (images a))" and k: "k < length (images a)"
      and s: "status (images a ! k) \<noteq> Completed"
      and o: "outcomeOf env (finalPrompt settings) (aspectRatio settings) k (images a ! k) = Inl e"
    have f: "images (fst (startProcessing env settings a)) ! k
               = (images a ! k)\<lparr>status := Error, error := message e\<rparr>"
      unfolding startProcessing_nth[OF d k] finished_def using s o by simp
    show "status (images (fst (startProcessing env settings a)) ! k) = Error"
      unfolding f by simp
    assume "message e = Some m"
    then show "error (images (fst (startProcessing env settings a)) ! k) = Some m"
      unfolding f by simp
  next
    fix k url
    assume d: "distinct (map id' (images a))" and k: "k < length (images a)"
      and s: "status (images a ! k) \<noteq> Completed"
      and o: "outcomeOf env (finalPrompt settings) (aspectRatio settings) k (images a ! k) = Inr url"
    have f: "images (fst (startProcessing env settings a)) ! k
               = (images a ! k)\<lparr>status := Completed, resultUrl := Some url\<rparr>"
      unfolding startProcessing_nth[OF d k] finished_def using s o by simp
    show "status (images (fst (startProcessing env settings a)) ! k) = Completed"
      unfolding f by simp
    show "resultUrl (images (fst (startProcessing env settings a)) ! k) = Some url"
      unfolding f by simp
  qed
qed

text \<open>
  Claim C5, amended. An item that is completed when the run starts, and whose identifier
  no item that is not completed has, is the same afterwards in every field. The files
  the run reads and the requests it sends are those of the items that are not
  completed, so none is read or sent for a completed one.
\<close>

theorem completed_items_skipped:
  "reads (snd (startProcessing env settings a))
     = map file' (filter (\<lambda>img. status img \<noteq> Completed) (images a))
   \<and> requests (snd (startProcessing env settings a))
     = List.map_filter
         (\<lambda>(k, img). requestOf env (finalPrompt settings) (aspectRatio settings) k img)
         (List.enumerate 0 (images a))
   \<and> (\<forall>k<length (images a). status (images a ! k) = Completed \<longrightarrow>
         requestOf env (finalPrompt settings) (aspectRatio settings) k (images a ! k) = None
       \<and> ((\<forall>q\<in>set (images a). status q \<noteq> Completed \<longrightarrow> id' q \<noteq> id' (images a ! k)) \<longrightarrow>
            images (fst (startProcessing env settings a)) ! k = images a ! k))"
proof (intro conjI allI impI)
  show "reads (snd (startProcessing env settings a))
     = map file' (filter (\<lambda>img. status img \<noteq> Completed) (images a))"
    by (simp add: startProcessing_world reads_run)
  show "requests (snd (startProcessing env settings a))
     = List.map_filter
         (\<lambda>(k, img). requestOf env (finalPrompt settings) (aspectRatio settings) k img)
         (List.enumerate 0 (images a))"
    by (simp add: startProcessing_world requests_run)
next
  fix k assume "k < length (images a)" "status (images a ! k) = Completed"
  then show "requestOf env (finalPrompt settings) (aspectRatio settings) k (images a ! k) = None"
    by (simp add: requestOf_def)
next
  fix k
  assume "k < length (images a)" "status (images a ! k) = Completed"
    and "\<forall>q\<in>set (images a). status q \<noteq> Completed \<longrightarrow> id' q \<noteq> id' (images a ! k)"
  then show "images (fst (startProcessing env settings a)) ! k = images a ! k"
    by (simp add: startProcessing_untouched)
qed

section \<open>States reached in the examples\<close>

text \<open>
  The states of the example runs are reachable: each is reached from the one before it
  by one step.
\<close>

lemma step_add_itemA:
  "step admits initial
     \<lparr> images = [itemA], isProcessing = False, job = None, pending = [], world = [] \<rparr>"
  if "admits [itemA]"
proof -
  have "admits (handleFileChange (Some [(''a'', file' itemA, ''blob:a'')]) (images initial))"
    using that by (simp add: initial_def handleFileChange_def itemA_def newItem_def)
  from step.add[of admits "Some [(''a'', file' itemA, ''blob:a'')]" initial, OF this]
  show ?thesis
    by (simp add: initial_def handleFileChange_def itemA_def newItem_def)
qed

lemma step_start_default:
  "step admits
     \<lparr> images = xs, isProcessing = False, job = None, pending = [], world = w \<rparr>
     \<lparr> images = xs, isProcessing = True, job = Some (defaultJob xs AtLoop),
       pending = [], world = w \<rparr>"
  if "xs \<noteq> []"
proof -
  let ?s = "\<lparr> images = xs, isProcessing = False, job = None, pending = [], world = w \<rparr>"
  have "\<not> isProcessing ?s" "images ?s \<noteq> []"
    using that by simp_all
  from step.start[OF this, of admits defaultSettings]
  show ?thesis
    by (simp add: defaultJob_def defaultSettings_def finalPrompt_def)
qed

lemma step_mark_default:
  "step admits
     \<lparr> images = xs, isProcessing = True, job = Some (defaultJob (img # rest) AtLoop),
       pending = [], world = w \<rparr>
     \<lparr> images = markProcessing (id' img) xs, isProcessing = True,
       job = Some (defaultJob (img # rest) Reading),
       pending = [], world = w @ [Read (file' img)] \<rparr>"
  if "status img \<noteq> Completed"
proof -
  let ?s = "\<lparr> images = xs, isProcessing = True, job = Some (defaultJob (img # rest) AtLoop),
              pending = [], world = w \<rparr>"
  have "job ?s = Some (defaultJob (img # rest) AtLoop)"
    "queue (defaultJob (img # rest) AtLoop) = img # rest"
    "phase (defaultJob (img # rest) AtLoop) = AtLoop"
    by (simp_all add: defaultJob_def)
  from step.mark[OF this that, of admits]
  show ?thesis
    by (simp add: defaultJob_def)
qed

lemma step_failed_default:
  "step admits
     \<lparr> images = xs, isProcessing = True, job = Some (defaultJob (img # rest) Reading),
       pending = [], world = w \<rparr>
     \<lparr> images = markError (id' img) m xs, isProcessing = True,
       job = Some (defaultJob rest AtLoop), pending = [], world = w \<rparr>"
proof -
  let ?s = "\<lparr> images = xs, isProcessing = True, job = Some (defaultJob (img # rest) Reading),
              pending = [], world = w \<rparr>"
  have "job ?s = Some (defaultJob (img # rest) Reading)"
    "queue (defaultJob (img # rest) Reading) = img # rest"
    "phase (defaultJob (img # rest) Reading) = Reading"
    "fileToBase64 (\<lambda>f. Inl m) (file' img) = Inl (EncodingError m)"
    by (simp_all add: defaultJob_def fileToBase64_def)
  from step.failed[OF this, of admits]
  show ?thesis
    by (simp add: defaultJob_def settle_def)
qed

lemma step_loaded_default:
  "step admits
     \<lparr> images = xs, isProcessing = True, job = Some (defaultJob (img # rest) Reading),
       pending = [], world = w \<rparr>
     \<lparr> images = xs, isProcessing = True,
       job = Some (defaultJob (img # rest) (Requesting b)),
       pending = [buildRequest b (mimeType (file' img)) SCANDINAVIAN R1_1],
       world = w @ [Sent (buildRequest b (mimeType (file' img)) SCANDINAVIAN R1_1)] \<rparr>"
  if "fileToBase64 (\<lambda>f. answer) (file' img) = Inr b"
proof -
  let ?s = "\<lparr> images = xs, isProcessing = True, job = Some (defaultJob (img # rest) Reading),
              pending = [], world = w \<rparr>"
  let ?req = "buildRequest b (mimeType (file' img)) SCANDINAVIAN R1_1"
  have "job ?s = Some (defaultJob (img # rest) Reading)"
    "queue (defaultJob (img # rest) Reading) = img # rest"
    "phase (defaultJob (img # rest) Reading) = Reading"
    by (simp_all add: defaultJob_def)
  from step.loaded[OF this that, of ?req admits]
  show ?thesis
    by (simp add: defaultJob_def)
qed

lemma step_answered_default:
  "step admits
     \<lparr> images = xs, isProcessing = True,
       job = Some (defaultJob (img # rest) (Requesting b)),
       pending = [buildRequest b (mimeType (file' img)) SCANDINAVIAN R1_1], world = w \<rparr>
     \<lparr> images = settle img (generateLifestyleImage (\<lambda>q. answer) b (mimeType (file' img))
                              SCANDINAVIAN R1_1) xs,
       isProcessing = True, job = Some (defaultJob rest AtLoop), pending = [], world = w \<rparr>"
proof -
  let ?req = "buildRequest b (mimeType (file' img)) SCANDINAVIAN R1_1"
  let ?s = "\<lparr> images = xs, isProcessing = True,
              job = Some (defaultJob (img # rest) (Requesting b)),
              pending = [?req], world = w \<rparr>"
  have "job ?s = Some (defaultJob (img # rest) (Requesting b))"
    "queue (defaultJob (img # rest) (Requesting b)) = img # rest"
    "phase (defaultJob (img # rest) (Requesting b)) = Requesting b"
    by (simp_all add: defaultJob_def)
  from step.answered[OF this, of ?req admits answer]
  show ?thesis
    by (simp add: defaultJob_def)
qed

lemma step_finish_default:
  "step admits
     \<lparr> images = xs, isProcessing = True, job = Some (defaultJob [] AtLoop),
       pending = [], world = w \<rparr>
     \<lparr> images = xs, isProcessing = False, job = None, pending = [], world = w \<rparr>"
proof -
  let ?s = "\<lparr> images = xs, isProcessing = True, job = Some (defaultJob [] AtLoop),
              pending = [], world = w \<rparr>"
  have "job ?s = Some (defaultJob [] AtLoop)" "queue (defaultJob [] AtLoop) = []"
    "phase (defaultJob [] AtLoop) = AtLoop"
    by (simp_all add: defaultJob_def)
  from step.finish[OF this, of admits]
  show ?thesis
    by simp
qed

text \<open>The first run on \<open>itemA\<close>, up to the moment its file has been taken up.\<close>

lemma reachable_reading:
  "admits [itemA] \<Longrightarrow>
   reachable admits
     \<lparr> images = [itemA\<lparr>status := Processing\<rparr>], isProcessing = True,
       job = Some (defaultJob [itemA] Reading), pending = [], world = [Read (file' itemA)] \<rparr>"
proof -
  assume a: "admits [itemA]"
  have s: "status itemA \<noteq> Completed"
    by (simp add: itemA_def newItem_def)
  note reachable.init[of admits]
  note reachable.after[OF this step_add_itemA[of admits, OF a]]
  note reachable.after[OF this step_start_default[of "[itemA]" admits "[]"]]
  note reachable.after[OF this step_mark_default[OF s, of admits "[itemA]" "[]" "[]"]]
  then show ?thesis
    by (simp add: markProcessing_def)
qed

lemma reachable_unread: "reachable uniqueIds unread"
proof -
  have "reachable uniqueIds
     \<lparr> images = [itemA\<lparr>status := Processing\<rparr>], isProcessing = True,
       job = Some (defaultJob [itemA] Reading), pending = [], world = [Read (file' itemA)] \<rparr>"
    by (rule reachable_reading) (simp add: uniqueIds_def)
  from reachable.after[OF this step_failed_default[of uniqueIds _ itemA "[]" _ None]]
  show ?thesis
    by (simp add: unread_def markError_def itemA_def newItem_def)
qed

lemma reachable_retrying: "reachable uniqueIds retrying"
proof -
  have l: "fileToBase64 (\<lambda>f. Inr ''data:image/jpeg;base64,QQ=='') (file' itemA) = Inr (Some ''QQ=='')"
    by (simp add: fileToBase64_def at_index_def)
  have g: "generateLifestyleImage (\<lambda>q. Inl (Some ''503 Service Unavailable''))
             (Some ''QQ=='') (mimeType (file' itemA)) SCANDINAVIAN R1_1
           = Inl (TransportError (Some ''503 Service Unavailable''))"
    by (simp add: generateLifestyleImage_def)
  have m: "mimeType (file' itemA) = ''image/jpeg''" "id' itemA = ''a''"
    by (simp_all add: itemA_def newItem_def)
  have s: "status failedA \<noteq> Completed"
    by (simp add: failedA_def)
  have "reachable uniqueIds
     \<lparr> images = [itemA\<lparr>status := Processing\<rparr>], isProcessing = True,
       job = Some (defaultJob [itemA] Reading), pending = [], world = [Read (file' itemA)] \<rparr>"
    by (rule reachable_reading) (simp add: uniqueIds_def)
  note reachable.after[OF this step_loaded_default[OF l, of uniqueIds _ "[]"]]
  note reachable.after[OF this
         step_answered_default[of uniqueIds _ itemA "[]" _ _ "Inl (Some ''503 Service Unavailable'')"]]
  then have "reachable uniqueIds
     \<lparr> images = [failedA], isProcessing = True, job = Some (defaultJob [] AtLoop),
       pending = [], world = [Read (file' itemA), Sent requestA] \<rparr>"
    unfolding g by (simp add: settle_def markError_def failedA_def m requestA_def)
  note reachable.after[OF this step_finish_default]
  note reachable.after[OF this step_start_default[of "[failedA]" uniqueIds]]
  note reachable.after[OF this step_mark_default[OF s, of uniqueIds "[failedA]" "[]"]]
  then show ?thesis
    by (simp add: retrying_def markProcessing_def failedA_def m)
qed

lemma reachable_requesting: "reachable uniqueIds requesting"
proof -
  have l: "fileToBase64 (\<lambda>f. Inr ''data:image/jpeg;base64,QQ=='') (file' failedA) = Inr (Some ''QQ=='')"
    by (simp add: fileToBase64_def at_index_def)
  have m: "mimeType (file' failedA) = ''image/jpeg''"
    by (simp add: failedA_def itemA_def newItem_def)
  from reachable.after[OF reachable_retrying[unfolded retrying_def]
         step_loaded_default[OF l, of uniqueIds _ "[]"]]
  show ?thesis
    by (simp add: requesting_def requestA_def m)
qed

lemma reachable_retried: "reachable uniqueIds retried"
proof -
  have g: "generateLifestyleImage (\<lambda>q. Inr textThenImage)
             (Some ''QQ=='') (mimeType (file' failedA)) SCANDINAVIAN R1_1
           = Inr ''data:image/png;base64,QUJD''"
    by (simp add: generateLifestyleImage_def textThenImage_def responseParts_def at_index_def)
  have m: "mimeType (file' failedA) = ''image/jpeg''" "id' failedA = ''a''"
    by (simp_all add: failedA_def itemA_def newItem_def)
  from reachable_requesting
  have "reachable uniqueIds
     \<lparr> images = [failedA\<lparr>status := Processing\<rparr>], isProcessing = True,
       job = Some (defaultJob [failedA] (Requesting (Some ''QQ==''))),
       pending = [buildRequest (Some ''QQ=='') (mimeType (file' failedA)) SCANDINAVIAN R1_1],
       world = [Read (file' itemA), Sent requestA, Read (file' itemA), Sent requestA] \<rparr>"
    by (simp add: requesting_def requestA_def m)
  from reachable.after[OF this step_answered_default[of uniqueIds _ failedA "[]" _ _ "Inr textThenImage"]]
  show ?thesis
    unfolding g by (simp add: retried_def settle_def markCompleted_def m)
qed

text \<open>
  A run on two items with the same identifier, up to the moment it takes up the second.
\<close>

lemma reachable_sharedTaken: "reachable anyIds sharedTaken"
proof -
  let ?url = "''data:image/png;base64,QUJD''"
  have "anyIds (handleFileChange
                  (Some [(''a'', file' itemA, ''blob:a''), (''a'', file' itemA2, ''blob:b'')])
                  (images initial))"
    by (simp add: anyIds_def)
  from step.add[of anyIds "Some [(''a'', file' itemA, ''blob:a''), (''a'', file' itemA2, ''blob:b'')]"
         initial, OF this]
  have 1: "step anyIds initial
             \<lparr> images = [itemA, itemA2], isProcessing = False, job = None, pending = [],
               world = [] \<rparr>"
    by (simp add: initial_def handleFileChange_def itemA_def itemA2_def newItem_def)
  have s: "status itemA \<noteq> Completed" "status itemA2 \<noteq> Completed"
    by (simp_all add: itemA_def itemA2_def newItem_def)
  have l: "fileToBase64 (\<lambda>f. Inr ''data:image/jpeg;base64,QQ=='') (file' itemA) = Inr (Some ''QQ=='')"
    by (simp add: fileToBase64_def at_index_def)
  have g: "generateLifestyleImage (\<lambda>q. Inr textThenImage)
             (Some ''QQ=='') (mimeType (file' itemA)) SCANDINAVIAN R1_1 = Inr ?url"
    by (simp add: generateLifestyleImage_def textThenImage_def responseParts_def at_index_def)
  have m: "mimeType (file' itemA) = ''image/jpeg''" "id' itemA = ''a''" "id' itemA2 = ''a''"
    by (simp_all add: itemA_def itemA2_def newItem_def)
  note reachable.init[of anyIds]
  note reachable.after[OF this 1]
  note reachable.after[OF this step_start_default[of "[itemA, itemA2]" anyIds "[]"]]
  note reachable.after[OF this step_mark_default[OF s(1), of anyIds "[itemA, itemA2]" "[itemA2]" "[]"]]
  note reachable.after[OF this step_loaded_default[OF l, of anyIds _ "[itemA2]"]]
  note reachable.after[OF this
         step_answered_default[of anyIds _ itemA "[itemA2]" _ _ "Inr textThenImage"]]
  then have "reachable anyIds
     \<lparr> images = [itemA\<lparr>status := Completed, resultUrl := Some ?url\<rparr>,
                 itemA2\<lparr>status := Completed, resultUrl := Some ?url\<rparr>],
       isProcessing = True, job = Some (defaultJob [itemA2] AtLoop),
       pending = [], world = [Read (file' itemA), Sent requestA] \<rparr>"
    unfolding g by (simp add: settle_def markProcessing_def markCompleted_def m requestA_def)
  note reachable.after[OF this step_mark_default[OF s(2), of anyIds _ "[]"]]
  then show ?thesis
    by (simp add: sharedTaken_def markProcessing_def itemA_def itemA2_def newItem_def)
qed

section \<open>The claims on the examples\<close>

text \<open>
  For C3: for the batch A, B, C the API receives the requests of A, B and C in this
  order, and in the state in which the request of \<open>itemA\<close> is awaited it is the only
  one pending.
\<close>

theorem calls_in_insertion_order_witness:
  "requests (snd (startProcessing envOk defaultSettings batchABC))
     = [requestA, requestB, buildRequest (Some ''Qw=='') ''image/webp'' SCANDINAVIAN R1_1]
   \<and> pending requesting = [requestA]
   \<and> length (pending requesting) \<le> 1"
proof -
  note t = calls_in_insertion_order[of envOk defaultSettings batchABC uniqueIds requesting]
  from t have "requests (snd (startProcessing envOk defaultSettings batchABC))
     = List.map_filter
         (\<lambda>(k, img). requestOf envOk (finalPrompt defaultSettings) (aspectRatio defaultSettings) k img)
         (List.enumerate 0 (images batchABC))"
    by (rule conjunct1)
  then have 1: "requests (snd (startProcessing envOk defaultSettings batchABC))
     = [requestA, requestB, buildRequest (Some ''Qw=='') ''image/webp'' SCANDINAVIAN R1_1]"
    by (simp add: example_defs requestOf_def fileToBase64_def at_index_def finalPrompt_def
          map_filter_simps requestA_def requestB_def)
  from t reachable_requesting have 2: "length (pending requesting) \<le> 1"
    by blast
  from 1 2 show ?thesis
    by (simp add: requesting_def)
qed

text \<open>
  For C6 as amended: with the custom prompt "Neon cyberpunk alley" both requests of the
  run are built from that text; with an empty custom prompt and the preset
  \<open>SCANDINAVIAN\<close> both carry the preset's text.
\<close>

theorem effective_prompt_fixed_witness:
  "requests (snd (startProcessing envOk neonSettings batchAB))
     = [buildRequest (Some ''QQ=='') ''image/jpeg'' ''Neon cyberpunk alley'' R16_9,
        buildRequest (Some ''Qg=='') ''image/png'' ''Neon cyberpunk alley'' R16_9]
   \<and> map instruction (requests (snd (startProcessing envOk neonSettings batchAB)))
     = [taskText ''Neon cyberpunk alley'', taskText ''Neon cyberpunk alley'']
   \<and> map instruction (requests (snd (startProcessing envOk defaultSettings batchAB)))
     = [taskText SCANDINAVIAN, taskText SCANDINAVIAN]"
proof -
  have n: "requests (snd (startProcessing envOk neonSettings batchAB))
     = [buildRequest (Some ''QQ=='') ''image/jpeg'' ''Neon cyberpunk alley'' R16_9,
        buildRequest (Some ''Qg=='') ''image/png'' ''Neon cyberpunk alley'' R16_9]"
    by (simp add: example_defs run_defs)
  have d: "requests (snd (startProcessing envOk defaultSettings batchAB)) = [requestA, requestB]"
    by (simp add: example_defs run_defs requestA_def requestB_def)
  have c: "customPrompt neonSettings \<noteq> ''''"
    by (simp add: neonSettings_def)
  have p: "customPrompt defaultSettings = '''' \<and> preset defaultSettings \<in> set LifestylePreset"
    by (simp add: defaultSettings_def LifestylePreset_def)
  from effective_prompt_fixed[of envOk neonSettings batchAB] c
  have "\<forall>req\<in>set (requests (snd (startProcessing envOk neonSettings batchAB))).
           instruction req = taskText (customPrompt neonSettings)"
    by blast
  then have 1: "map instruction (requests (snd (startProcessing envOk neonSettings batchAB)))
     = [taskText ''Neon cyberpunk alley'', taskText ''Neon cyberpunk alley'']"
    unfolding n by (simp add: neonSettings_def)
  from effective_prompt_fixed[of envOk defaultSettings batchAB] p
  have "\<forall>req\<in>set (requests (snd (startProcessing envOk defaultSettings batchAB))).
           instruction req = taskText (preset defaultSettings)"
    by blast
  then have 2: "map instruction (requests (snd (startProcessing envOk defaultSettings batchAB)))
     = [taskText SCANDINAVIAN, taskText SCANDINAVIAN]"
    unfolding d by (simp add: defaultSettings_def)
  from n 1 2 show ?thesis
    by simp
qed

text \<open>
  Against C6 as stated: the option \<open>Custom description...\<close> is chosen and nothing is
  typed. The custom prompt is empty, the effective prompt is the option's value
  \<open>CUSTOM\<close>, which is no preset's description text, and the requests are built from
  it.
\<close>

theorem custom_option_counterexample:
  "customPrompt customOption = ''''
   \<and> preset customOption \<in> set selectValues
   \<and> finalPrompt customOption = ''CUSTOM''
   \<and> ''CUSTOM'' \<notin> set LifestylePreset
   \<and> requests (snd (startProcessing envOk customOption batchAB))
     = [buildRequest (Some ''QQ=='') ''image/jpeg'' ''CUSTOM'' R1_1,
        buildRequest (Some ''Qg=='') ''image/png'' ''CUSTOM'' R1_1]"
proof -
  have "''CUSTOM'' \<notin> set LifestylePreset"
    by (simp add: LifestylePreset_def SCANDINAVIAN_def MINIMALIST_ZEN_def INDUSTRIAL_LOFT_def
          MODERN_KITCHEN_def NATURE_OUTDOOR_def LUXURY_STUDIO_def BOHEMIAN_CHIC_def
          TECH_OFFICE_def)
  moreover have "requests (snd (startProcessing envOk customOption batchAB))
     = [buildRequest (Some ''QQ=='') ''image/jpeg'' ''CUSTOM'' R1_1,
        buildRequest (Some ''Qg=='') ''image/png'' ''CUSTOM'' R1_1]"
    by (simp add: example_defs run_defs)
  ultimately show ?thesis
    by (simp add: customOption_def selectValues_def finalPrompt_def)
qed

text \<open>
  For C4 as amended: A and B have different identifiers, the request of A fails and
  that of B succeeds; both files are read, A is in error with the message of the
  failure and B is completed.
\<close>

theorem failure_does_not_abort_witness:
  "reads (snd (startProcessing envFirstFails defaultSettings batchAB)) = [file' itemA, file' itemB]
   \<and> status (images (fst (startProcessing envFirstFails defaultSettings batchAB)) ! 0) = Error
   \<and> error (images (fst (startProcessing envFirstFails defaultSettings batchAB)) ! 0)
       = Some ''503 Service Unavailable''
   \<and> status (images (fst (startProcessing envFirstFails defaultSettings batchAB)) ! 1) = Completed
   \<and> resultUrl (images (fst (startProcessing envFirstFails defaultSettings batchAB)) ! 1)
       = Some ''data:image/png;base64,QUJD''"
proof -
  note t = failure_does_not_abort[of envFirstFails defaultSettings batchAB]
  have d: "distinct (map id' (images batchAB))"
    by (simp add: example_defs)
  have k: "0 < length (images batchAB)" "1 < length (images batchAB)"
    by (simp_all add: example_defs)
  have s: "status (images batchAB ! 0) \<noteq> Completed" "status (images batchAB ! 1) \<noteq> Completed"
    by (simp_all add: example_defs)
  have o0: "outcomeOf envFirstFails (finalPrompt defaultSettings) (aspectRatio defaultSettings)
              0 (images batchAB ! 0) = Inl (TransportError (Some ''503 Service Unavailable''))"
    by (simp add: example_defs outcomeOf_def fileToBase64_def generateLifestyleImage_def at_index_def)
  have o1: "outcomeOf envFirstFails (finalPrompt defaultSettings) (aspectRatio defaultSettings)
              1 (images batchAB ! 1) = Inr ''data:image/png;base64,QUJD''"
    by (simp add: example_defs outcomeOf_def fileToBase64_def generateLifestyleImage_def
          at_index_def responseParts_def)
  have m: "message (TransportError (Some ''503 Service Unavailable'')) = Some ''503 Service Unavailable''"
    by simp
  from t have r: "reads (snd (startProcessing envFirstFails defaultSettings batchAB))
                    = map file' (filter (\<lambda>img. status img \<noteq> Completed) (images batchAB))"
    by (rule conjunct1)
  from t d k(1) s(1) o0 m
  have a: "status (images (fst (startProcessing envFirstFails defaultSettings batchAB)) ! 0) = Error
         \<and> error (images (fst (startProcessing envFirstFails defaultSettings batchAB)) ! 0)
             = Some ''503 Service Unavailable''"
    by blast
  from t d k(2) s(2) o1
  have b: "status (images (fst (startProcessing envFirstFails defaultSettings batchAB)) ! 1) = Completed
         \<and> resultUrl (images (fst (startProcessing envFirstFails defaultSettings batchAB)) ! 1)
             = Some ''data:image/png;base64,QUJD''"
    by blast
  from r a b show ?thesis
    by (simp add: example_defs)
qed

text \<open>
  Against C4 as stated. First, A and B have the same identifier, the request of A fails
  and that of B succeeds: the update for B rebuilds A as well, and A ends completed,
  not in error. Second, the file of A cannot be read: the value thrown is the reader's
  event, \<open>message\<close> reads as \<open>undefined\<close> on it, and A ends in error with no
  message.
\<close>

theorem shared_id_failure_counterexample:
  "outcomeOf envFirstFails (finalPrompt defaultSettings) (aspectRatio defaultSettings)
      0 (images batchShared ! 0) = Inl (TransportError (Some ''503 Service Unavailable''))
   \<and> outcomeOf envFirstFails (finalPrompt defaultSettings) (aspectRatio defaultSettings)
      1 (images batchShared ! 1) = Inr ''data:image/png;base64,QUJD''
   \<and> map status (images (fst (startProcessing envFirstFails defaultSettings batchShared)))
       = [Completed, Completed]
   \<and> outcomeOf envUnreadable (finalPrompt defaultSettings) (aspectRatio defaultSettings)
      0 (images batchAB ! 0) = Inl (EncodingError None)
   \<and> map (\<lambda>it. (status it, error it))
         (images (fst (startProcessing envUnreadable defaultSettings batchAB)))
       = [(Error, None), (Completed, None)]"
  by (simp add: example_defs run_defs outcomeOf_def)

text \<open>
  For C5 as amended: the completed first item, whose identifier the second does not
  have, is the same after the run; the run reads the file of the second item only and
  sends its request only.
\<close>

theorem completed_items_skipped_witness:
  "images (fst (startProcessing envOk defaultSettings batchDoneB)) ! 0 = doneA
   \<and> reads (snd (startProcessing envOk defaultSettings batchDoneB)) = [file' itemB]
   \<and> requests (snd (startProcessing envOk defaultSettings batchDoneB)) = [requestB]"
proof -
  note t = completed_items_skipped[of envOk defaultSettings batchDoneB]
  have k: "0 < length (images batchDoneB)"
    by (simp add: example_defs)
  have s: "status (images batchDoneB ! 0) = Completed"
    by (simp add: example_defs)
  have u: "\<forall>q\<in>set (images batchDoneB). status q \<noteq> Completed \<longrightarrow> id' q \<noteq> id' (images batchDoneB ! 0)"
    by (simp add: example_defs)
  from t k s u
  have 1: "images (fst (startProcessing envOk defaultSettings batchDoneB)) ! 0 = images batchDoneB ! 0"
    by blast
  from t have 2: "reads (snd (startProcessing envOk defaultSettings batchDoneB))
                    = map file' (filter (\<lambda>img. status img \<noteq> Completed) (images batchDoneB))"
    by (rule conjunct1)
  from t have 3: "requests (snd (startProcessing envOk defaultSettings batchDoneB))
     = List.map_filter
         (\<lambda>(k, img). requestOf envOk (finalPrompt defaultSettings) (aspectRatio defaultSettings) k img)
         (List.enumerate 0 (images batchDoneB))"
    by (rule conjunct1[OF conjunct2])
  from 1 2 3 show ?thesis
    by (simp add: example_defs requestOf_def fileToBase64_def at_index_def finalPrompt_def
          map_filter_simps requestB_def)
qed

text \<open>
  Against C5 as stated: the completed first item and the pending second have the same
  identifier; the update for the second rebuilds the first, whose result is overwritten.
\<close>

theorem shared_id_completed_counterexample:
  "status (images batchDoneShared ! 0) = Completed
   \<and> resultUrl (images batchDoneShared ! 0) = Some ''data:image/png;base64,T0xE''
   \<and> status (images (fst (startProcessing envOk defaultSettings batchDoneShared)) ! 0) = Completed
   \<and> resultUrl (images (fst (startProcessing envOk defaultSettings batchDoneShared)) ! 0)
       = Some ''data:image/png;base64,QUJD''"
  by (simp add: example_defs run_defs)

section \<open>The fields and the status\<close>

lemma fieldsOk_newItem: "fieldsOk (newItem t)"
  by (cases t) (simp add: fieldsOk_def newItem_def)

lemma fieldsOk_settle:
  assumes "\<forall>it\<in>set live. fieldsOk it"
  shows "\<forall>it\<in>set (settle img out live). fieldsOk it"
  using assms
  by (cases out) (auto simp: settle_def markCompleted_def markError_def fieldsOk_def)

lemma fieldsOk_step:
  assumes "step admits s t" "\<forall>it\<in>set (images s). fieldsOk it"
  shows "\<forall>it\<in>set (images t). fieldsOk it"
  using assms(1)
proof (cases rule: step.cases)
  case (add files)
  with assms(2) show ?thesis
    by (cases files) (auto simp: handleFileChange_def fieldsOk_newItem)
next
  case (remove i)
  with assms(2) show ?thesis by (auto simp: removeImage_def)
next
  case clear
  then show ?thesis by (simp add: clearAll_def)
next
  case (start settings)
  with assms(2) show ?thesis by simp
next
  case (skip r img rest)
  with assms(2) show ?thesis by simp
next
  case (mark r img rest)
  with assms(2) show ?thesis by (auto simp: markProcessing_def fieldsOk_def)
next
  case (failed r img rest answer e)
  with fieldsOk_settle[OF assms(2)] show ?thesis by simp
next
  case (loaded r img rest answer base64 req)
  with assms(2) show ?thesis by simp
next
  case (answered r img rest base64 req answer)
  with fieldsOk_settle[OF assms(2)] show ?thesis by simp
next
  case (finish r)
  with assms(2) show ?thesis by simp
qed

lemma fieldsOk_reachable:
  "reachable admits s \<Longrightarrow> \<forall>it\<in>set (images s). fieldsOk it"
  by (induction rule: reachable.induct) (auto simp: initial_def dest: fieldsOk_step)

lemma same_id_same_item:
  "distinct (map id' xs) \<Longrightarrow> x \<in> set xs \<Longrightarrow> y \<in> set xs \<Longrightarrow> id' x = id' y \<Longrightarrow> x = y"
  by (meson distinct_map inj_onD)

lemma noUrl_markProcessing: "noUrl (markProcessing j live) i = noUrl live i"
  by (induction live) (auto simp: noUrl_def markProcessing_def)

lemma noUrl_markError: "noUrl (markError j m live) i = noUrl live i"
  by (induction live) (auto simp: noUrl_def markError_def)

lemma noUrl_markCompleted: "i \<noteq> j \<Longrightarrow> noUrl (markCompleted j u live) i = noUrl live i"
  by (induction live) (auto simp: noUrl_def markCompleted_def)

lemma noUrl_settle: "i \<noteq> id' img \<Longrightarrow> noUrl live i \<Longrightarrow> noUrl (settle img out live) i"
  by (cases out) (simp_all add: settle_def noUrl_markError noUrl_markCompleted)

lemma noUrl_removeImage: "noUrl live i \<Longrightarrow> noUrl (removeImage j live) i"
  by (simp add: noUrl_def removeImage_def)

lemma noUrl_handleFileChange: "noUrl live i \<Longrightarrow> noUrl (handleFileChange files live) i"
  by (cases files) (auto simp: noUrl_def handleFileChange_def newItem_def)

lemma url_markProcessing:
  "urlOnlyCompleted live \<Longrightarrow> noUrl live j \<Longrightarrow> urlOnlyCompleted (markProcessing j live)"
  unfolding urlOnlyCompleted_def noUrl_def markProcessing_def
  by (simp add: ball_Un)

lemma url_markError:
  "urlOnlyCompleted live \<Longrightarrow> noUrl live j \<Longrightarrow> urlOnlyCompleted (markError j m live)"
  unfolding urlOnlyCompleted_def noUrl_def markError_def
  by (simp add: ball_Un)

lemma url_markCompleted:
  "urlOnlyCompleted live \<Longrightarrow> urlOnlyCompleted (markCompleted j u live)"
  unfolding urlOnlyCompleted_def markCompleted_def
  by (simp add: ball_Un)

lemma url_settle:
  "urlOnlyCompleted live \<Longrightarrow> noUrl live (id' img) \<Longrightarrow> urlOnlyCompleted (settle img out live)"
  by (cases out) (simp_all add: settle_def url_markError url_markCompleted)

lemma url_removeImage: "urlOnlyCompleted live \<Longrightarrow> urlOnlyCompleted (removeImage j live)"
  by (simp add: urlOnlyCompleted_def removeImage_def)

lemma url_handleFileChange:
  "urlOnlyCompleted live \<Longrightarrow> urlOnlyCompleted (handleFileChange files live)"
  by (cases files) (auto simp: urlOnlyCompleted_def handleFileChange_def newItem_def)

lemma queueOk_live:
  assumes "queueOk live r" "\<And>i. noUrl live i \<Longrightarrow> noUrl live' i"
  shows "queueOk live' r"
  using assms by (simp add: queueOk_def)

lemma queueOk_phase:
  assumes "queueOk live r" "queue r = img # rest" "status img \<noteq> Completed"
  shows "queueOk live (r\<lparr>phase := ph\<rparr>)"
  using assms by (simp add: queueOk_def)

lemma queueOk_start:
  assumes "distinct (map id' live)" "urlOnlyCompleted live"
  shows "queueOk live \<lparr>queue = live, phase = AtLoop, jobPrompt = p, jobRatio = ar\<rparr>"
proof -
  have "noUrl live (id' q)" if "q \<in> set live" "status q \<noteq> Completed" for q
    unfolding noUrl_def
  proof (intro ballI impI)
    fix it assume "it \<in> set live" "id' it = id' q"
    with assms(1) that(1) have "it = q" by (blast intro: same_id_same_item)
    with that assms(2) show "resultUrl it = None"
      by (auto simp: urlOnlyCompleted_def)
  qed
  with assms(1) show ?thesis by (simp add: queueOk_def)
qed

lemma queueOk_head:
  assumes "queueOk live r" "queue r = img # rest" "phase r \<noteq> AtLoop \<or> status img \<noteq> Completed"
  shows "noUrl live (id' img)" and "status img \<noteq> Completed"
  using assms by (auto simp: queueOk_def)

lemma queueOk_tail:
  assumes "queueOk live r" "queue r = img # rest"
      and "\<And>i. i \<noteq> id' img \<Longrightarrow> noUrl live i \<Longrightarrow> noUrl live' i"
  shows "queueOk live' (r\<lparr>queue := rest, phase := AtLoop\<rparr>)"
proof -
  from assms(1,2) have d: "distinct (map id' rest)" and n: "id' img \<notin> id' ` set rest"
    and q: "\<forall>q\<in>set rest. status q \<noteq> Completed \<longrightarrow> noUrl live (id' q)"
    by (auto simp: queueOk_def)
  have "noUrl live' (id' q)" if "q \<in> set rest" "status q \<noteq> Completed" for q
  proof -
    from that(1) have "id' q \<in> id' ` set rest" by (rule imageI)
    with n have "id' q \<noteq> id' img" by metis
    moreover from that q have "noUrl live (id' q)" by blast
    ultimately show ?thesis by (rule assms(3))
  qed
  with d show ?thesis by (simp add: queueOk_def)
qed

lemma runInvariant_step:
  assumes u: "\<forall>xs. admits xs \<longrightarrow> uniqueIds xs"
      and st: "step admits s t"
      and inv: "runInvariant s"
  shows "runInvariant t"
proof -
  from inv have d: "distinct (map id' (images s))" and uc: "urlOnlyCompleted (images s)"
    and jq: "\<And>r. job s = Some r \<Longrightarrow> queueOk (images s) r"
    by (simp_all add: runInvariant_def)
  from st show ?thesis
  proof (cases rule: step.cases)
    case (add files)
    have "distinct (map id' (handleFileChange files (images s)))"
      using u add(2) by (auto simp: uniqueIds_def)
    moreover have "queueOk (handleFileChange files (images s)) r" if "job s = Some r" for r
      using jq[OF that] noUrl_handleFileChange by (rule queueOk_live)
    ultimately show ?thesis
      unfolding add(1) using uc by (simp add: runInvariant_def url_handleFileChange)
  next
    case (remove i)
    have "queueOk (removeImage i (images s)) r" if "job s = Some r" for r
      using jq[OF that] noUrl_removeImage by (rule queueOk_live)
    moreover have "distinct (map id' (removeImage i (images s)))"
      using d by (simp add: removeImage_def distinct_map_filter)
    ultimately show ?thesis
      unfolding remove using uc by (simp add: runInvariant_def url_removeImage)
  next
    case clear
    have "queueOk [] r" if "job s = Some r" for r
      using jq[OF that] by (rule queueOk_live) (simp add: noUrl_def)
    then show ?thesis
      unfolding clear(1) by (simp add: runInvariant_def urlOnlyCompleted_def clearAll_def)
  next
    case (start settings)
    show ?thesis
      unfolding start(1) using d uc by (simp add: runInvariant_def queueOk_start)
  next
    case (skip r img rest)
    have "queueOk (images s) (r\<lparr>queue := rest, phase := AtLoop\<rparr>)"
      using jq[OF skip(2)] skip(3) by (rule queueOk_tail)
    moreover have "r\<lparr>queue := rest, phase := AtLoop\<rparr> = r\<lparr>queue := rest\<rparr>"
      using skip(4) by simp
    ultimately show ?thesis
      unfolding skip(1) using d uc by (simp add: runInvariant_def)
  next
    case (mark r img rest)
    have h: "noUrl (images s) (id' img)"
      using jq[OF mark(2)] mark(3) mark(5) by (auto intro: queueOk_head)
    have "queueOk (images s) (r\<lparr>phase := Reading\<rparr>)"
      using jq[OF mark(2)] mark(3) mark(5) by (rule queueOk_phase)
    then have "queueOk (markProcessing (id' img) (images s)) (r\<lparr>phase := Reading\<rparr>)"
      by (rule queueOk_live) (simp add: noUrl_markProcessing)
    then show ?thesis
      unfolding mark(1) using d uc h
      by (simp add: runInvariant_def mark_ids url_markProcessing)
  next
    case (failed r img rest answer e)
    have h: "noUrl (images s) (id' img)"
      using jq[OF failed(2)] failed(3) failed(4) by (auto intro: queueOk_head)
    have "queueOk (settle img (Inl e) (images s)) (r\<lparr>queue := rest, phase := AtLoop\<rparr>)"
      using jq[OF failed(2)] failed(3) by (rule queueOk_tail) (rule noUrl_settle)
    then show ?thesis
      unfolding failed(1) using d uc h
      by (simp add: runInvariant_def settle_ids url_settle)
  next
    case (loaded r img rest answer base64 req)
    have "phase r \<noteq> AtLoop \<or> status img \<noteq> Completed"
      using loaded(4) by simp
    from queueOk_head(2)[OF jq[OF loaded(2)] loaded(3) this]
    have "status img \<noteq> Completed" .
    with jq[OF loaded(2)] loaded(3) have "queueOk (images s) (r\<lparr>phase := Requesting base64\<rparr>)"
      by (rule queueOk_phase)
    then show ?thesis
      unfolding loaded(1) using d uc by (simp add: runInvariant_def)
  next
    case (answered r img rest base64 req answer)
    let ?out = "generateLifestyleImage (\<lambda>q. answer) base64 (mimeType (file' img))
                  (jobPrompt r) (jobRatio r)"
    have h: "noUrl (images s) (id' img)"
      using jq[OF answered(2)] answered(3) answered(4) by (auto intro: queueOk_head)
    have "queueOk (settle img ?out (images s)) (r\<lparr>queue := rest, phase := AtLoop\<rparr>)"
      using jq[OF answered(2)] answered(3) by (rule queueOk_tail) (rule noUrl_settle)
    then show ?thesis
      unfolding answered(1) using d uc h
      by (simp add: runInvariant_def settle_ids url_settle)
  next
    case (finish r)
    show ?thesis
      unfolding finish(1) using d uc by (simp add: runInvariant_def)
  qed
qed

lemma runInvariant_reachable:
  assumes "\<forall>xs. admits xs \<longrightarrow> uniqueIds xs" "reachable admits s"
  shows "runInvariant s"
  using assms(2)
proof (induction rule: reachable.induct)
  case init
  show ?case by (simp add: runInvariant_def initial_def urlOnlyCompleted_def)
next
  case (after s t)
  with assms(1) show ?case by (blast intro: runInvariant_step)
qed

text \<open>
  Claim C1, amended. In every state reachable by the public operations, an item whose
  status is pending has neither field set and an item whose status is completed has
  \<open>resultUrl\<close> set; and when the drawing of identifiers never puts two items of the
  same identifier into the collection, \<open>resultUrl\<close> is set on completed items only.
\<close>

theorem fields_follow_status:
  assumes "reachable admits s" and "it \<in> set (images s)"
  shows "(status it = Pending \<longrightarrow> resultUrl it = None \<and> error it = None)
       \<and> (status it = Completed \<longrightarrow> resultUrl it \<noteq> None)
       \<and> ((\<forall>xs. admits xs \<longrightarrow> uniqueIds xs) \<longrightarrow> resultUrl it \<noteq> None \<longrightarrow> status it = Completed)"
proof (intro conjI)
  from fieldsOk_reachable[OF assms(1)] assms(2) have ok: "fieldsOk it" by blast
  from ok show "status it = Pending \<longrightarrow> resultUrl it = None \<and> error it = None"
    unfolding fieldsOk_def by (rule conjunct1)
  from ok show "status it = Completed \<longrightarrow> resultUrl it \<noteq> None"
    unfolding fieldsOk_def by (rule conjunct2)
  show "(\<forall>xs. admits xs \<longrightarrow> uniqueIds xs) \<longrightarrow> resultUrl it \<noteq> None \<longrightarrow> status it = Completed"
  proof
    assume "\<forall>xs. admits xs \<longrightarrow> uniqueIds xs"
    from runInvariant_reachable[OF this assms(1)]
    have "urlOnlyCompleted (images s)"
      unfolding runInvariant_def by (rule conjunct1[OF conjunct2])
    with assms(2) show "resultUrl it \<noteq> None \<longrightarrow> status it = Completed"
      unfolding urlOnlyCompleted_def by (rule bspec[rotated])
  qed
qed

text \<open>
  For C1 as amended: the retried item is completed and has its result.
\<close>

theorem fields_follow_status_witness:
  "reachable uniqueIds retried
   \<and> images retried = [failedA\<lparr>status := Completed, resultUrl := Some ''data:image/png;base64,QUJD''\<rparr>]
   \<and> status (failedA\<lparr>status := Completed, resultUrl := Some ''data:image/png;base64,QUJD''\<rparr>) = Completed
   \<and> resultUrl (failedA\<lparr>status := Completed, resultUrl := Some ''data:image/png;base64,QUJD''\<rparr>) \<noteq> None"
proof -
  have m: "failedA\<lparr>status := Completed, resultUrl := Some ''data:image/png;base64,QUJD''\<rparr>
             \<in> set (images retried)"
    by (simp add: retried_def)
  from fields_follow_status[OF reachable_retried m] reachable_retried
  show ?thesis
    by (simp add: retried_def failedA_def)
qed

text \<open>
  Against C1 as stated, four reachable states. A failed item that a second run takes
  up is processing and still has the message of the first run; when the second run
  succeeds it is completed and has both fields. An item whose file could not be read is
  in error and has no message. And of two items with the same identifier, the one the
  run takes up second is processing and has the result that the first iteration gave
  to both.
\<close>

theorem retry_keeps_error_counterexample:
  "reachable uniqueIds retrying
   \<and> images retrying = [failedA\<lparr>status := Processing\<rparr>]
   \<and> status (failedA\<lparr>status := Processing\<rparr>) = Processing
   \<and> error (failedA\<lparr>status := Processing\<rparr>) = Some ''503 Service Unavailable''
   \<and> \<not> exactlyOneField (failedA\<lparr>status := Processing\<rparr>)
   \<and> reachable uniqueIds retried
   \<and> images retried
       = [failedA\<lparr>status := Completed, resultUrl := Some ''data:image/png;base64,QUJD''\<rparr>]
   \<and> error (failedA\<lparr>status := Completed, resultUrl := Some ''data:image/png;base64,QUJD''\<rparr>)
       = Some ''503 Service Unavailable''
   \<and> \<not> exactlyOneField
          (failedA\<lparr>status := Completed, resultUrl := Some ''data:image/png;base64,QUJD''\<rparr>)
   \<and> reachable uniqueIds unread
   \<and> images unread = [itemA\<lparr>status := Error, error := None\<rparr>]
   \<and> \<not> exactlyOneField (itemA\<lparr>status := Error, error := None\<rparr>)
   \<and> reachable anyIds sharedTaken
   \<and> images sharedTaken
       = [itemA\<lparr>status := Processing, resultUrl := Some ''data:image/png;base64,QUJD''\<rparr>,
          itemA2\<lparr>status := Processing, resultUrl := Some ''data:image/png;base64,QUJD''\<rparr>]
   \<and> \<not> exactlyOneField
          (itemA2\<lparr>status := Processing, resultUrl := Some ''data:image/png;base64,QUJD''\<rparr>)"
  using reachable_retrying reachable_retried reachable_unread reachable_sharedTaken
  by (simp add: retrying_def retried_def unread_def sharedTaken_def failedA_def exactlyOneField_def)

end
